theory Spec2Isabelle
  imports Main "HOL-Library.Word" "HOL-Library.Sublist"
begin

section \<open>Data model of the client (nats.go)\<close>

text \<open>
  The embedding follows the Go source function by function. Every function that runs
  under the connection mutex is one atomic step on the connection record; a function
  that blocks (a channel receive, a timer) takes the outcome of the blocking operation
  as an argument. What the network, the JSON decoder and the line scanner return is
  an argument of the function that calls them.

  Go strings and byte slices are \<open>string\<close> (a list of 8-bit characters), \<open>uint64\<close>
  is \<open>64 word\<close>, so the counters wrap as they do in the source.
\<close>

type_synonym u64 = "64 word"

datatype Status = DISCONNECTED | CONNECTED | CLOSED | RECONNECTING

text \<open>
  The package-level error values, \<open>ErrNew\<close> for an error made in place by
  \<open>errors.New\<close> (with its text), and \<open>ErrIO\<close> for an error handed up by the
  network layer.
\<close>

datatype error =
    ErrConnectionClosed
  | ErrSecureConnRequired
  | ErrSecureConnWanted
  | ErrBadSubscription
  | ErrSlowConsumer
  | ErrTimeout
  | ErrNew string
  | ErrIO

text \<open>Run-time panics of the Go code that the model keeps as results.\<close>

datatype panic = IndexOutOfRange | MakeSliceLenOutOfRange | SendOnClosedChannel

text \<open>
  Callbacks are user code: the options record says whether one is registered, and each
  invocation is appended to the connection's \<open>events\<close>. A goroutine started with
  \<open>go\<close> is logged the same way.
\<close>

datatype Event =
    EvClosedCB
  | EvDisconnectedCB
  | EvReconnectedCB
  | EvAsyncErrorCB u64 "error option"
  | EvGo string

record Options =
  Secure :: bool
  AllowReconnect :: bool
  MaxReconnect :: u64
  ClosedCB :: bool
  DisconnectedCB :: bool
  ReconnectedCB :: bool
  AsyncErrorCB :: bool

record Msg =
  msg_Subject :: string
  msg_Reply :: string
  msg_Data :: string
  msg_Sub :: u64

text \<open>
  A buffered Go channel of messages: its queued items and whether \<open>close\<close> was called.
\<close>

record Chan =
  items :: "Msg list"
  chan_closed :: bool

text \<open>
  A subscription. \<open>sub_conn\<close> is \<open>s.conn != nil\<close>, \<open>mcb\<close> is \<open>s.mcb != nil\<close>,
  \<open>mch_nil\<close> is \<open>s.mch == nil\<close> and \<open>mch\<close> is the channel object made by
  \<open>subscribe\<close> (the delivery goroutine keeps it after the field is set to nil).
  \<open>max_msgs\<close> is the field \<open>max\<close>. \<open>handled\<close> lists the messages the callback
  was called with.
\<close>

record Subscription =
  sid :: u64
  Subject :: string
  Queue :: string
  msgs :: u64
  delivered :: u64
  bytes :: u64
  max_msgs :: u64
  sub_conn :: bool
  mcb :: bool
  mch_nil :: bool
  mch :: Chan
  sc :: bool
  handled :: "Msg list"

text \<open>
  The socket as the client sees it: the bytes written to it so far, whether the client
  closed it, and whether the peer is gone (a write then fails).
\<close>

record Socket =
  sent :: string
  sock_closed :: bool
  broken :: bool

text \<open>
  \<open>bufio.Writer\<close>: where it writes to (the socket or the pending \<open>bytes.Buffer\<close>), its
  size, the bytes it holds and its sticky error.
\<close>

datatype Sink = ToSocket | ToPending

record Writer =
  target :: Sink
  wsize :: nat
  wbuf :: string
  werr :: "error option"

record serverInfo =
  Id :: string
  Host :: string
  Port :: nat
  Version :: string
  AuthRequired :: bool
  SslRequired :: bool
  MaxPayload :: "64 word"

text \<open>
  The connection. The registry \<open>nc.subs\<close> maps a subscription id to a pointer: \<open>subs\<close>
  lists the keys of the map (in the order a \<open>range\<close> visits them, which Go leaves
  open) and \<open>objs\<close> is the store of subscription objects, addressed by their id, so
  that a subscription taken out of the registry is still there for the caller that
  holds it. \<open>pongs\<close> holds channel identities, \<open>None\<close> for a nil slot. \<open>fch\<close> is the
  number of signals queued for the flusher. \<open>cinfo\<close> is the JSON text of the connect
  options. \<open>signals\<close> lists the flush channels that were sent \<open>true\<close>, in order.
  A connection handed out by \<open>Connect\<close> always has a writer, so \<open>bw\<close> is not optional.
\<close>

record Conn =
  InMsgs :: u64
  OutMsgs :: u64
  InBytes :: u64
  OutBytes :: u64
  Reconnects :: u64
  Opts :: Options
  conn :: "Socket option"
  bw :: Writer
  pending :: "string option"
  fch :: nat
  info :: serverInfo
  ssid :: u64
  subs :: "u64 list"
  objs :: "u64 \<Rightarrow> Subscription option"
  pongs :: "nat option list"
  status :: Status
  err :: "error option"
  cinfo :: string
  signals :: "nat list"
  events :: "Event list"

section \<open>Constants and protocol lines\<close>

definition CRLF :: string where
  "CRLF = [CHR 0x0D, CHR 0x0A]"

definition maxChanLen :: nat where
  "maxChanLen = 8192"

definition defaultBufSize :: nat where
  "defaultBufSize = 32768"

definition defaultPendingSize :: nat where
  "defaultPendingSize = 1024 * 1024"

definition digit_char :: "nat \<Rightarrow> char" where
  "digit_char d = ''0123456789'' ! d"

text \<open>The decimal text of a number, as \<open>%d\<close> and \<open>strconv.Itoa\<close> print it.\<close>

fun dec_nat :: "nat \<Rightarrow> string" where
  "dec_nat n = (if n < 10 then [digit_char n] else dec_nat (n div 10) @ [digit_char (n mod 10)])"

definition Itoa :: "int \<Rightarrow> string" where
  "Itoa i = (if i < 0 then CHR ''-'' # dec_nat (nat (- i)) else dec_nat (nat i))"

definition pingProto :: string where
  "pingProto = ''PING'' @ CRLF"

definition pongProto :: string where
  "pongProto = ''PONG'' @ CRLF"

definition conProto :: "string \<Rightarrow> string" where
  "conProto b = ''CONNECT '' @ b @ CRLF"

definition pubProto :: "string \<Rightarrow> string \<Rightarrow> nat \<Rightarrow> string" where
  "pubProto subj reply n = ''PUB '' @ subj @ '' '' @ reply @ '' '' @ dec_nat n @ CRLF"

definition subProto :: "string \<Rightarrow> string \<Rightarrow> u64 \<Rightarrow> string" where
  "subProto subj queue i = ''SUB '' @ subj @ '' '' @ queue @ '' '' @ dec_nat (unat i) @ CRLF"

definition unsubProto :: "u64 \<Rightarrow> string \<Rightarrow> string" where
  "unsubProto i maxStr = ''UNSUB '' @ dec_nat (unat i) @ '' '' @ maxStr @ CRLF"

definition isClosed :: "Conn \<Rightarrow> bool" where
  "isClosed nc = (status nc = CLOSED)"

definition isReconnecting :: "Conn \<Rightarrow> bool" where
  "isReconnecting nc = (status nc = RECONNECTING)"

section \<open>The buffered writer\<close>

text \<open>
  The writer is Go's \<open>bufio.Writer\<close>. A write to the pending buffer always succeeds
  and grows it (\<open>bytes.Buffer\<close> has no bound); a write to the socket fails when the
  socket is gone, closed or broken, and otherwise appends all the bytes (a short write
  is not modelled).
\<close>

definition sink_write :: "Sink \<Rightarrow> string \<Rightarrow> Conn \<Rightarrow> error option \<times> Conn" where
  "sink_write t p nc =
     (case t of
        ToPending \<Rightarrow>
          (case pending nc of
             None \<Rightarrow> (None, nc)
           | Some q \<Rightarrow> (None, nc\<lparr>pending := Some (q @ p)\<rparr>))
      | ToSocket \<Rightarrow>
          (case conn nc of
             None \<Rightarrow> (Some ErrIO, nc)
           | Some s \<Rightarrow>
               if sock_closed s \<or> broken s then (Some ErrIO, nc)
               else (None, nc\<lparr>conn := Some (s\<lparr>sent := sent s @ p\<rparr>)\<rparr>)))"

definition bw_Flush :: "Conn \<Rightarrow> error option \<times> Conn" where
  "bw_Flush nc =
     (let w = bw nc in
      if werr w \<noteq> None then (werr w, nc)
      else if wbuf w = [] then (None, nc)
      else (case sink_write (target w) (wbuf w) nc of
              (None, nc') \<Rightarrow> (None, nc'\<lparr>bw := w\<lparr>wbuf := []\<rparr>\<rparr>)
            | (Some e, nc') \<Rightarrow> (Some e, nc'\<lparr>bw := w\<lparr>werr := Some e\<rparr>\<rparr>)))"

definition Available :: "Writer \<Rightarrow> nat" where
  "Available w = wsize w - length (wbuf w)"

text \<open>
  The loop of \<open>Writer.Write\<close>: while the bytes do not fit and no error is set, an empty
  buffer passes them straight to the sink, and a buffer with content is filled up and
  flushed. The result is the part of \<open>p\<close> still to be copied and the connection.
\<close>

function bw_Write_loop :: "string \<Rightarrow> Conn \<Rightarrow> string \<times> Conn" where
  "bw_Write_loop p nc =
     (let w = bw nc in
      if length p > Available w \<and> werr w = None then
        (if wbuf w = [] then
           (case sink_write (target w) p nc of
              (None, nc') \<Rightarrow> bw_Write_loop [] nc'
            | (Some e, nc') \<Rightarrow> bw_Write_loop p (nc'\<lparr>bw := w\<lparr>werr := Some e\<rparr>\<rparr>))
         else
           (let n = Available w;
                nc1 = nc\<lparr>bw := w\<lparr>wbuf := wbuf w @ take n p\<rparr>\<rparr>
            in bw_Write_loop (drop n p) (snd (bw_Flush nc1))))
      else (p, nc))"
  by pat_completeness auto

termination
  by (relation "measure (\<lambda>(p, nc). if werr (bw nc) \<noteq> None then 0
          else 2 * length p + (if wbuf (bw nc) \<noteq> [] then 1 else 0) + 1)")
     (auto simp: bw_Flush_def sink_write_def Let_def Available_def
           split: Sink.splits option.splits if_splits)

declare bw_Write_loop.simps [simp del]

definition bw_Write :: "string \<Rightarrow> Conn \<Rightarrow> error option \<times> Conn" where
  "bw_Write p nc =
     (case bw_Write_loop p nc of
        (p', nc') \<Rightarrow>
          if werr (bw nc') \<noteq> None then (werr (bw nc'), nc')
          else (None, nc'\<lparr>bw := (bw nc')\<lparr>wbuf := wbuf (bw nc') @ p'\<rparr>\<rparr>))"

text \<open>\<open>WriteString\<close> is \<open>Write\<close> on the bytes of the string.\<close>

definition bw_WriteString :: "string \<Rightarrow> Conn \<Rightarrow> error option \<times> Conn" where
  "bw_WriteString s nc = bw_Write s nc"

definition NewWriterSize :: "Sink \<Rightarrow> nat \<Rightarrow> Writer" where
  "NewWriterSize t n =
     \<lparr>target = t, wsize = (if n = 0 then 4096 else n), wbuf = [], werr = None\<rparr>"

section \<open>Flusher signal, protocol replies\<close>

definition kickFlusher :: "Conn \<Rightarrow> Conn" where
  "kickFlusher nc = (if fch nc = 0 then nc\<lparr>fch := 1\<rparr> else nc)"

definition sendProto :: "string \<Rightarrow> Conn \<Rightarrow> Conn" where
  "sendProto proto nc = kickFlusher (snd (bw_WriteString proto nc))"

definition processPing :: "Conn \<Rightarrow> Conn" where
  "processPing nc = sendProto pongProto nc"

section \<open>The PONG-waiter queue\<close>

text \<open>
  \<open>processPong\<close> reads \<open>nc.pongs[0]\<close> with no length check: on an empty queue Go
  panics with an index out of range.
\<close>

definition processPong :: "Conn \<Rightarrow> panic + Conn" where
  "processPong nc =
     (case pongs nc of
        [] \<Rightarrow> Inl IndexOutOfRange
      | ch # rest \<Rightarrow>
          (let nc1 = nc\<lparr>pongs := rest\<rparr> in
           case ch of
             None \<Rightarrow> Inr nc1
           | Some c \<Rightarrow> Inr (nc1\<lparr>signals := signals nc1 @ [c]\<rparr>)))"

fun void_first :: "nat \<Rightarrow> nat option list \<Rightarrow> nat option list" where
  "void_first ch [] = []"
| "void_first ch (c # cs) = (if c = Some ch then None # cs else c # void_first ch cs)"

definition removeFlushEntry :: "nat \<Rightarrow> Conn \<Rightarrow> bool \<times> Conn" where
  "removeFlushEntry ch nc = (Some ch \<in> set (pongs nc), nc\<lparr>pongs := void_first ch (pongs nc)\<rparr>)"

text \<open>
  \<open>FlushTimeout\<close> in two steps. The first runs under the mutex up to the \<open>select\<close>:
  \<open>ch\<close> is the channel it makes. The second is the \<open>select\<close> and what follows it, given
  which case fired.
\<close>

definition FlushTimeout_send :: "int \<Rightarrow> nat \<Rightarrow> Conn \<Rightarrow> error + Conn" where
  "FlushTimeout_send timeout ch nc =
     (if timeout \<le> 0 then Inl (ErrNew ''nats: Bad timeout value'')
      else if isClosed nc then Inl ErrConnectionClosed
      else
        (let nc1 = nc\<lparr>pongs := pongs nc @ [Some ch]\<rparr>;
             nc2 = snd (bw_WriteString pingProto nc1)
         in Inr (snd (bw_Flush nc2))))"

datatype Wake = GotValue | ChanClosed | TimerFired

definition FlushTimeout_wait :: "nat \<Rightarrow> Wake \<Rightarrow> Conn \<Rightarrow> error option \<times> Conn" where
  "FlushTimeout_wait ch wake nc =
     (let e = (case wake of
                 GotValue \<Rightarrow> err nc
               | ChanClosed \<Rightarrow> Some ErrConnectionClosed
               | TimerFired \<Rightarrow> Some ErrTimeout)
      in if e \<noteq> None then (e, snd (removeFlushEntry ch nc)) else (e, nc))"

definition clearPendingFlushCalls :: "Conn \<Rightarrow> Conn" where
  "clearPendingFlushCalls nc =
     nc\<lparr>signals := signals nc @ List.map_filter (\<lambda>c. c) (pongs nc), pongs := []\<rparr>"

section \<open>Close, disconnect, reconnect\<close>

definition close_mch :: "Subscription \<Rightarrow> Subscription" where
  "close_mch s =
     (if mch_nil s then s
      else s\<lparr>mch := (mch s)\<lparr>chan_closed := True\<rparr>, mch_nil := True\<rparr>)"

fun close_subs :: "u64 list \<Rightarrow> (u64 \<Rightarrow> Subscription option) \<Rightarrow> (u64 \<Rightarrow> Subscription option)" where
  "close_subs [] h = h"
| "close_subs (k # ks) h =
     close_subs ks (case h k of None \<Rightarrow> h | Some s \<Rightarrow> h(k \<mapsto> close_mch s))"

definition add_event :: "Event \<Rightarrow> Conn \<Rightarrow> Conn" where
  "add_event e nc = nc\<lparr>events := events nc @ [e]\<rparr>"

definition close_socket :: "Conn \<Rightarrow> Conn" where
  "close_socket nc = nc\<lparr>conn := map_option (\<lambda>s. s\<lparr>sock_closed := True\<rparr>) (conn nc)\<rparr>"

definition Close :: "Conn \<Rightarrow> Conn" where
  "Close nc =
     (if isClosed nc then nc
      else
        (let nc1 = nc\<lparr>status := CLOSED\<rparr>;
             nc2 = kickFlusher nc1;
             nc3 = clearPendingFlushCalls nc2;
             nc4 = nc3\<lparr>objs := close_subs (subs nc3) (objs nc3), subs := []\<rparr>;
             nc5 = (if conn nc4 \<noteq> None \<and> DisconnectedCB (Opts nc4)
                    then add_event EvDisconnectedCB nc4 else nc4);
             nc6 = nc5\<lparr>status := CLOSED\<rparr>;
             nc7 = (if conn nc6 \<noteq> None then close_socket (snd (bw_Flush nc6)) else nc6)
         in if ClosedCB (Opts nc7) then add_event EvClosedCB nc7 else nc7))"

definition processDisconnect :: "Conn \<Rightarrow> Conn" where
  "processDisconnect nc =
     (let nc1 = nc\<lparr>status := DISCONNECTED\<rparr> in
      if err nc1 \<noteq> None then nc1
      else if SslRequired (info nc1) then nc1\<lparr>err := Some ErrSecureConnRequired\<rparr>
      else nc1\<lparr>err := Some ErrConnectionClosed\<rparr>)"

definition processReconnect :: "Conn \<Rightarrow> Conn" where
  "processReconnect nc =
     (let nc1 =
        (if \<not> isClosed nc then
           (let a = nc\<lparr>status := RECONNECTING\<rparr>;
                b = (if conn a \<noteq> None then close_socket (snd (bw_Flush a)) else a);
                c = b\<lparr>conn := None\<rparr>;
                d = kickFlusher c;
                e = d\<lparr>pending := Some [], bw := NewWriterSize ToPending defaultPendingSize\<rparr>
            in add_event (EvGo ''doReconnect'') e)
         else nc)
      in if DisconnectedCB (Opts nc1) then add_event EvDisconnectedCB nc1 else nc1)"

definition flushReconnectPendingItems :: "Conn \<Rightarrow> Conn" where
  "flushReconnectPendingItems nc =
     (case pending nc of
        None \<Rightarrow> nc
      | Some p \<Rightarrow>
          (let nc1 = (if length p > 0 then snd (bw_Write p nc) else nc)
           in nc1\<lparr>pending := None\<rparr>))"

definition new_socket :: Socket where
  "new_socket = \<lparr>sent = [], sock_closed = False, broken = False\<rparr>"

text \<open>
  \<open>createConn\<close>, given whether the dial succeeds. The flush of the old writer (into the
  pending buffer) is taken before the new socket is stored, so that an old writer never
  reaches the new socket; the source stores first, and its old writer holds its own sink.
\<close>

definition createConn :: "bool \<Rightarrow> Conn \<Rightarrow> error option \<times> Conn" where
  "createConn dial_ok nc =
     (if \<not> dial_ok then (Some ErrIO, nc\<lparr>conn := None, err := Some ErrIO\<rparr>)
      else
        (let nc1 = (if pending nc \<noteq> None then snd (bw_Flush nc) else nc);
             nc2 = nc1\<lparr>conn := Some new_socket, err := None\<rparr>
         in (None, nc2\<lparr>bw := NewWriterSize ToSocket defaultBufSize\<rparr>)))"

definition makeTLSConn :: "Conn \<Rightarrow> Conn" where
  "makeTLSConn nc = nc\<lparr>bw := NewWriterSize ToSocket defaultBufSize\<rparr>"

definition spinUpSocketWatchers :: "Conn \<Rightarrow> Conn" where
  "spinUpSocketWatchers nc = add_event (EvGo ''flusher'') (add_event (EvGo ''readLoop'') nc)"

definition checkForSecure :: "Conn \<Rightarrow> error option \<times> Conn" where
  "checkForSecure nc =
     (if Secure (Opts nc) \<and> \<not> SslRequired (info nc) then (Some ErrSecureConnWanted, nc)
      else if SslRequired (info nc) \<and> \<not> Secure (Opts nc) then (Some ErrSecureConnRequired, nc)
      else (None, if Secure (Opts nc) then makeTLSConn nc else nc))"

definition processReadOpErr :: "error \<Rightarrow> Conn \<Rightarrow> Conn" where
  "processReadOpErr e nc =
     (if isClosed nc \<or> isReconnecting nc then nc
      else if AllowReconnect (Opts nc) then processReconnect nc
      else Close ((processDisconnect nc)\<lparr>err := Some e\<rparr>))"

text \<open>
  \<open>readOp\<close>, given what reading and splitting one control line yields: an error, or the
  operation and its arguments.
\<close>

definition readOp :: "error + string \<times> string \<Rightarrow> Conn \<Rightarrow> error + string \<times> string" where
  "readOp line nc = (if isClosed nc then Inl ErrConnectionClosed else line)"

text \<open>
  \<open>processInfo\<close>, given what \<open>json.Unmarshal\<close> makes of the arguments: its error and the
  server information after it.
\<close>

definition processInfo :: "string \<Rightarrow> error option \<times> serverInfo \<Rightarrow> Conn \<Rightarrow> Conn" where
  "processInfo args dec nc =
     (if args = [] then nc else nc\<lparr>err := fst dec, info := snd dec\<rparr>)"

definition processExpectedInfo ::
    "error + string \<times> string \<Rightarrow> error option \<times> serverInfo \<Rightarrow> Conn \<Rightarrow> error option \<times> Conn" where
  "processExpectedInfo line dec nc =
     (case readOp line nc of
        Inl e \<Rightarrow> (Some e, processReadOpErr e nc)
      | Inr (op, args) \<Rightarrow>
          if op \<noteq> ''INFO'' then
            (let e = ErrNew ''nats: Protocol exception, INFO not received''
             in (Some e, processReadOpErr e nc))
          else checkForSecure (processInfo args dec nc))"

definition connectProto :: "Conn \<Rightarrow> string" where
  "connectProto nc = conProto (cinfo nc)"

section \<open>Subscription replay\<close>

definition lookup_sub :: "Conn \<Rightarrow> u64 \<Rightarrow> Subscription option" where
  "lookup_sub nc k = (if k \<in> set (subs nc) then objs nc k else None)"

definition registered :: "Conn \<Rightarrow> Subscription list" where
  "registered nc = List.map_filter (objs nc) (subs nc)"

text \<open>
  The loop of \<open>resendSubscriptions\<close> over the subscriptions of the registry:
  \<open>int(s.max)\<close> reads the 64 bits as a signed number.
\<close>

fun resend_loop :: "Subscription list \<Rightarrow> Conn \<Rightarrow> Conn" where
  "resend_loop [] nc = nc"
| "resend_loop (s # ss) nc =
     (let nc1 = snd (bw_WriteString (subProto (Subject s) (Queue s) (sid s)) nc);
          nc2 = (if max_msgs s > 0
                 then (let maxStr = Itoa (sint (max_msgs s))
                       in snd (bw_WriteString (unsubProto (sid s) maxStr) nc1))
                 else nc1)
      in resend_loop ss nc2)"

definition resendSubscriptions :: "Conn \<Rightarrow> Conn" where
  "resendSubscriptions nc = resend_loop (registered nc) nc"

section \<open>The reconnect loop\<close>

text \<open>
  What one attempt meets: the dial fails, or it succeeds and the first control line and
  the decoding of its arguments are as given.
\<close>

datatype Attempt =
    DialFailed
  | Dialed "error + string \<times> string" "error option \<times> serverInfo"

text \<open>
  How \<open>doReconnect\<close> ends: with a connection (the goroutine then calls \<open>Flush\<close> and the
  reconnected callback, see \<open>doReconnect_finish\<close>), or by leaving its loop.
\<close>

datatype Reconnect = Redialed Conn | LoopEnded Conn

fun doReconnect_loop :: "nat \<Rightarrow> nat \<Rightarrow> (nat \<Rightarrow> Attempt) \<Rightarrow> Conn \<Rightarrow> Reconnect" where
  "doReconnect_loop i 0 io nc = LoopEnded nc"
| "doReconnect_loop i (Suc n) io nc =
     (if isClosed nc then LoopEnded nc
      else
        (case io i of
           DialFailed \<Rightarrow>
             (let nc1 = (snd (createConn False nc))\<lparr>err := None\<rparr>
              in doReconnect_loop (Suc i) n io nc1)
         | Dialed line dec \<Rightarrow>
             (let nc1 = (snd (createConn True nc))\<lparr>err := None\<rparr>;
                  nc2 = nc1\<lparr>Reconnects := Reconnects nc1 + 1\<rparr>;
                  (e, nc3) = processExpectedInfo line dec nc2;
                  nc4 = nc3\<lparr>err := e\<rparr>;
                  nc5 = (if e = None then
                           (let a = nc4\<lparr>status := CONNECTED\<rparr>;
                                b = spinUpSocketWatchers a;
                                c = snd (bw_WriteString (connectProto b) b);
                                d = resendSubscriptions c
                            in flushReconnectPendingItems d)
                         else nc4)
              in Redialed nc5)))"

text \<open>
  The loop runs for \<open>i < int(nc.Opts.MaxReconnect)\<close>: the conversion reads the option as
  a signed number.
\<close>

definition doReconnect :: "(nat \<Rightarrow> Attempt) \<Rightarrow> Conn \<Rightarrow> Reconnect" where
  "doReconnect io nc = doReconnect_loop 0 (nat (sint (MaxReconnect (Opts nc)))) io nc"

definition doReconnect_finish :: "Conn \<Rightarrow> Conn" where
  "doReconnect_finish nc =
     (if ReconnectedCB (Opts nc) then add_event EvReconnectedCB nc else nc)"

section \<open>Inbound messages\<close>

definition processSlowConsumer :: "u64 \<Rightarrow> Conn \<Rightarrow> Conn" where
  "processSlowConsumer k nc =
     (let nc1 = nc\<lparr>objs := (objs nc)(k := map_option (\<lambda>s. s\<lparr>sc := True\<rparr>) (objs nc k))\<rparr>;
          nc2 = nc1\<lparr>err := Some ErrSlowConsumer\<rparr>
      in if AsyncErrorCB (Opts nc2) then add_event (EvAsyncErrorCB k (err nc2)) nc2 else nc2)"

text \<open>
  \<open>processMsg\<close>, given what \<open>Sscanf\<close> makes of the argument line (\<open>None\<close> when it does
  not scan as three or four fields, else subject, subscription id, reply and declared
  length) and what \<open>io.ReadFull\<close> returns for the payload.
\<close>

definition processMsg ::
    "(string \<times> u64 \<times> string \<times> int) option \<Rightarrow> error + string \<Rightarrow> Conn \<Rightarrow> panic + Conn" where
  "processMsg parsed payload nc =
     (case parsed of
        None \<Rightarrow> Inr (Close (nc\<lparr>err := Some (ErrNew ''nats: Parse exception processing msg'')\<rparr>))
      | Some (subj, k, reply, blen) \<Rightarrow>
          if blen < 0 then Inl MakeSliceLenOutOfRange
          else
            (case payload of
               Inl e \<Rightarrow> Inr (Close (nc\<lparr>err := Some e\<rparr>))
             | Inr buf \<Rightarrow>
                 if int (length buf) \<noteq> blen then Inr (Close (nc\<lparr>err := None\<rparr>))
                 else
                   (let nc1 = nc\<lparr>InMsgs := InMsgs nc + 1,
                                  InBytes := InBytes nc + of_int blen\<rparr>
                    in case lookup_sub nc1 k of
                         None \<Rightarrow> Inr nc1
                       | Some sub \<Rightarrow>
                           if max_msgs sub > 0 \<and> msgs sub > max_msgs sub then Inr nc1
                           else
                             (let sub1 = sub\<lparr>msgs := msgs sub + 1,
                                              bytes := bytes sub + of_int blen\<rparr>;
                                  m = \<lparr>msg_Subject = subj, msg_Reply = reply,
                                       msg_Data = buf, msg_Sub = k\<rparr>;
                                  nc2 = nc1\<lparr>objs := (objs nc1)(k \<mapsto> sub1)\<rparr>
                              in if \<not> mch_nil sub1 then
                                   (if length (items (mch sub1)) \<ge> maxChanLen
                                    then Inr (processSlowConsumer k nc2)
                                    else if chan_closed (mch sub1) then Inl SendOnClosedChannel
                                    else
                                      Inr (nc2\<lparr>objs := (objs nc2)(k \<mapsto>
                                             sub1\<lparr>sc := False,
                                                  mch := (mch sub1)\<lparr>items :=
                                                    items (mch sub1) @ [m]\<rparr>\<rparr>)\<rparr>))
                                 else Inr nc2))))"

section \<open>Delivery\<close>

text \<open>
  One turn of the loop of \<open>deliverMsgs\<close> on the channel of subscription \<open>s\<close>, given
  \<open>nc.isClosed()\<close>: \<open>None\<close> when the loop ends or the receive blocks on an empty channel.
  Every message in the channel of a subscription has that subscription as its \<open>Sub\<close>.
\<close>

definition deliverMsgs_step :: "bool \<Rightarrow> Subscription \<Rightarrow> Subscription option" where
  "deliverMsgs_step nc_closed s =
     (if nc_closed then None
      else
        (case items (mch s) of
           [] \<Rightarrow> None
         | m # rest \<Rightarrow>
             (let s1 = s\<lparr>mch := (mch s)\<lparr>items := rest\<rparr>\<rparr> in
              if \<not> sub_conn s1 \<or> \<not> mcb s1 then Some s1
              else
                (let s2 = s1\<lparr>delivered := delivered s1 + 1\<rparr> in
                 if max_msgs s2 \<le> 0 \<or> delivered s2 \<le> max_msgs s2
                 then Some (s2\<lparr>handled := handled s2 @ [m]\<rparr>)
                 else Some s2))))"

function deliverMsgs :: "bool \<Rightarrow> Subscription \<Rightarrow> Subscription" where
  "deliverMsgs nc_closed s =
     (case deliverMsgs_step nc_closed s of
        None \<Rightarrow> s
      | Some s' \<Rightarrow> deliverMsgs nc_closed s')"
  by pat_completeness auto
termination
  by (relation "measure (\<lambda>(c, s). length (items (mch s)))")
     (auto simp: deliverMsgs_step_def Let_def split: list.splits if_splits)

declare deliverMsgs.simps [simp del]

text \<open>
  \<open>NextMsg\<close>, given whether the timer case of the \<open>select\<close> fires before the channel has
  anything to hand over. On an open and empty channel only the timer can fire. The
  result is the message, the error and the subscription afterwards.
\<close>

definition NextMsg :: "bool \<Rightarrow> Subscription \<Rightarrow> (Msg option \<times> error option) \<times> Subscription" where
  "NextMsg timer_first s =
     (if mch_nil s then ((None, Some ErrConnectionClosed), s)
      else if mcb s then ((None, Some (ErrNew ''nats: Illegal call on an async Subscription'')), s)
      else if \<not> sub_conn s then ((None, Some ErrBadSubscription), s)
      else if sc s then ((None, Some ErrSlowConsumer), s\<lparr>sc := False\<rparr>)
      else if timer_first \<or> (items (mch s) = [] \<and> \<not> chan_closed (mch s))
        then ((None, Some ErrTimeout), s)
      else
        (case items (mch s) of
           [] \<Rightarrow> ((None, Some ErrConnectionClosed), s)
         | m # rest \<Rightarrow>
             (let s1 = s\<lparr>mch := (mch s)\<lparr>items := rest\<rparr>,
                         delivered := delivered s + 1\<rparr>
              in if max_msgs s1 > 0 \<and> delivered s1 > max_msgs s1
                 then ((None, Some (ErrNew ''nats: Max messages delivered'')), s1)
                 else ((Some m, None), s1))))"

section \<open>Publish, subscribe, unsubscribe\<close>

definition publish :: "string \<Rightarrow> string \<Rightarrow> string \<Rightarrow> Conn \<Rightarrow> error option \<times> Conn" where
  "publish subj reply data nc =
     (if isClosed nc then (Some ErrConnectionClosed, kickFlusher nc)
      else
        (let nc1 = snd (bw_Write (pubProto subj reply (length data)) nc);
             nc2 = snd (bw_Write data nc1);
             (e, nc3) = bw_WriteString CRLF nc2;
             nc4 = nc3\<lparr>err := e\<rparr>
         in if e \<noteq> None then (e, kickFlusher nc4)
            else (None, kickFlusher (nc4\<lparr>OutMsgs := OutMsgs nc4 + 1,
                                         OutBytes := OutBytes nc4 + of_nat (length data)\<rparr>))))"

definition Publish :: "string \<Rightarrow> string \<Rightarrow> Conn \<Rightarrow> error option \<times> Conn" where
  "Publish subj data nc = publish subj [] data nc"

definition new_sub :: "u64 \<Rightarrow> string \<Rightarrow> bool \<Rightarrow> Subscription" where
  "new_sub k subj cb =
     \<lparr>sid = k, Subject = subj, Queue = [], msgs = 0, delivered = 0, bytes = 0,
      max_msgs = 0, sub_conn = True, mcb = cb, mch_nil = False,
      mch = \<lparr>items = [], chan_closed = False\<rparr>, sc = False, handled = []\<rparr>"

text \<open>
  \<open>subscribe\<close>: \<open>cb\<close> says whether a callback is given. The struct literal of the source
  sets the subject, the callback and the connection, and leaves \<open>Queue\<close> empty.
\<close>

definition subscribe :: "string \<Rightarrow> string \<Rightarrow> bool \<Rightarrow> Conn \<Rightarrow> (error + u64) \<times> Conn" where
  "subscribe subj queue cb nc =
     (if isClosed nc then (Inl ErrConnectionClosed, kickFlusher nc)
      else
        (let k = ssid nc + 1;
             nc1 = (if cb then add_event (EvGo ''deliverMsgs'') nc else nc);
             nc2 = nc1\<lparr>ssid := k,
                       subs := (if k \<in> set (subs nc1) then subs nc1 else subs nc1 @ [k]),
                       objs := (objs nc1)(k \<mapsto> new_sub k subj cb)\<rparr>;
             nc3 = (if \<not> isReconnecting nc2
                    then snd (bw_WriteString (subProto subj queue k) nc2) else nc2)
         in (Inr k, kickFlusher nc3)))"

text \<open>\<open>unsubscribe\<close> of the subscription with id \<open>k\<close>; \<open>mx\<close> is the argument that the source calls max, a Go \<open>int\<close>.\<close>

definition unsubscribe :: "u64 \<Rightarrow> int \<Rightarrow> Conn \<Rightarrow> error option \<times> Conn" where
  "unsubscribe k mx nc =
     (if isClosed nc then (Some ErrConnectionClosed, kickFlusher nc)
      else
        (case lookup_sub nc k of
           None \<Rightarrow> (None, kickFlusher nc)
         | Some s \<Rightarrow>
             (let maxStr = (if mx > 0 then Itoa mx else []);
                  nc1 = (if mx > 0
                         then nc\<lparr>objs := (objs nc)(k \<mapsto> s\<lparr>max_msgs := of_int mx\<rparr>)\<rparr>
                         else nc\<lparr>subs := removeAll k (subs nc),
                                 objs := (objs nc)(k \<mapsto> (close_mch s)\<lparr>sub_conn := False\<rparr>)\<rparr>);
                  nc2 = (if \<not> isReconnecting nc1
                         then snd (bw_WriteString (unsubProto (sid s) maxStr) nc1) else nc1)
              in (None, kickFlusher nc2))))"

definition AutoUnsubscribe :: "u64 \<Rightarrow> int \<Rightarrow> Conn \<Rightarrow> error option \<times> Conn" where
  "AutoUnsubscribe k mx nc =
     (case objs nc k of
        None \<Rightarrow> (Some ErrBadSubscription, nc)
      | Some s \<Rightarrow> if \<not> sub_conn s then (Some ErrBadSubscription, nc) else unsubscribe k mx nc)"

section \<open>Runs of the reader\<close>


text \<open>
  A trace of the events that touch the PONG-waiter queue: a flush call entering with a
  positive timeout and the channel it makes, a PONG line read from the server, and the
  removal of its entry by a flush call that timed out.
\<close>

datatype QEvent = Flush nat | Pong | TimedOut nat

fun run_trace :: "QEvent list \<Rightarrow> Conn \<Rightarrow> panic + Conn" where
  "run_trace [] nc = Inr nc"
| "run_trace (Flush ch # es) nc =
     (case FlushTimeout_send 1 ch nc of
        Inl e \<Rightarrow> run_trace es nc
      | Inr nc' \<Rightarrow> run_trace es nc')"
| "run_trace (Pong # es) nc =
     (case processPong nc of
        Inl e \<Rightarrow> Inl e
      | Inr nc' \<Rightarrow> run_trace es nc')"
| "run_trace (TimedOut ch # es) nc = run_trace es (snd (FlushTimeout_wait ch TimerFired nc))"

text \<open>
  Whether, along a trace that starts with \<open>n\<close> waiters in the queue, every PONG finds a
  waiter that an earlier flush call appended.
\<close>

fun covered :: "nat \<Rightarrow> QEvent list \<Rightarrow> bool" where
  "covered n [] = True"
| "covered n (Flush ch # es) = covered (Suc n) es"
| "covered 0 (Pong # es) = False"
| "covered (Suc n) (Pong # es) = covered n es"
| "covered n (TimedOut ch # es) = covered n es"

section \<open>Observations used in the statements\<close>

text \<open>
  \<open>wire\<close> is the byte stream the current writer has taken so far: what reached its sink,
  then what it still holds. \<open>writable\<close> says that the writer has no error and that its
  sink takes bytes.
\<close>

definition sink_bytes :: "Conn \<Rightarrow> string" where
  "sink_bytes nc =
     (case target (bw nc) of
        ToSocket \<Rightarrow> (case conn nc of None \<Rightarrow> [] | Some s \<Rightarrow> sent s)
      | ToPending \<Rightarrow> (case pending nc of None \<Rightarrow> [] | Some q \<Rightarrow> q))"

definition wire :: "Conn \<Rightarrow> string" where
  "wire nc = sink_bytes nc @ wbuf (bw nc)"

definition writable :: "Conn \<Rightarrow> bool" where
  "writable nc =
     (werr (bw nc) = None \<and>
      (case target (bw nc) of
         ToSocket \<Rightarrow> (case conn nc of None \<Rightarrow> False | Some s \<Rightarrow> \<not> sock_closed s \<and> \<not> broken s)
       | ToPending \<Rightarrow> pending nc \<noteq> None))"

text \<open>The bytes written between two states of the same writer.\<close>

definition written :: "Conn \<Rightarrow> Conn \<Rightarrow> string" where
  "written nc nc' = drop (length (wire nc)) (wire nc')"

text \<open>The strings the loop of \<open>resendSubscriptions\<close> hands to the writer, in order.\<close>

fun resend_protos :: "Subscription list \<Rightarrow> string list" where
  "resend_protos [] = []"
| "resend_protos (s # ss) =
     subProto (Subject s) (Queue s) (sid s)
       # (if max_msgs s > 0 then [unsubProto (sid s) (Itoa (sint (max_msgs s)))] else [])
       @ resend_protos ss"

text \<open>
  The counters of a subscription: every message delivered or still queued has been
  counted in \<open>msgs\<close>.
\<close>

definition sub_inv :: "Subscription \<Rightarrow> bool" where
  "sub_inv s = (unat (delivered s) + length (items (mch s)) \<le> unat (msgs s))"


text \<open>The connection with its socket, pending buffer and writer blanked out.\<close>

definition without_io :: "Conn \<Rightarrow> Conn" where
  "without_io nc = nc\<lparr>conn := None, pending := None, bw := NewWriterSize ToSocket 0\<rparr>"

section \<open>Example states\<close>

definition opts0 :: Options where
  "opts0 = \<lparr>Secure = False, AllowReconnect = True, MaxReconnect = 10, ClosedCB = True,
            DisconnectedCB = True, ReconnectedCB = True, AsyncErrorCB = True\<rparr>"

definition info0 :: serverInfo where
  "info0 = \<lparr>Id = ''id'', Host = ''localhost'', Port = 4222, Version = ''0.1'',
            AuthRequired = False, SslRequired = False, MaxPayload = 4\<rparr>"

text \<open>A connected client with no subscription and nothing written.\<close>

definition conn0 :: Conn where
  "conn0 =
     \<lparr>InMsgs = 0, OutMsgs = 0, InBytes = 0, OutBytes = 0, Reconnects = 0, Opts = opts0,
      conn = Some new_socket, bw = NewWriterSize ToSocket defaultBufSize, pending = None,
      fch = 0, info = info0, ssid = 0, subs = [], objs = (\<lambda>k. None), pongs = [],
      status = CONNECTED, err = None, cinfo = ''{}'', signals = [], events = []\<rparr>"

definition msg0 :: Msg where
  "msg0 = \<lparr>msg_Subject = ''foo'', msg_Reply = [], msg_Data = ''x'', msg_Sub = 1\<rparr>"

text \<open>
  A synchronous subscription on \<open>foo\<close> with \<open>max = 10\<close> that has received and handed
  over three messages, in the registry of a connection whose writer is fresh.
\<close>

definition sub_replay :: Subscription where
  "sub_replay = (new_sub 1 ''foo'' False)\<lparr>max_msgs := 10, msgs := 3, delivered := 3, bytes := 3\<rparr>"

definition conn_replay :: Conn where
  "conn_replay = conn0\<lparr>ssid := 1, subs := [1], objs := (\<lambda>k. None)(1 \<mapsto> sub_replay)\<rparr>"

text \<open>A subscription whose mailbox holds \<open>maxChanLen\<close> messages.\<close>

definition sub_full :: Subscription where
  "sub_full = (new_sub 1 ''foo'' False)
     \<lparr>msgs := 8192, bytes := 8192, mch := \<lparr>items = replicate maxChanLen msg0, chan_closed = False\<rparr>\<rparr>"

definition conn_full :: Conn where
  "conn_full = conn0\<lparr>InMsgs := 8192, InBytes := 8192, ssid := 1, subs := [1],
                     objs := (\<lambda>k. None)(1 \<mapsto> sub_full)\<rparr>"

text \<open>
  A subscription with \<open>max = 1\<close> that has enqueued one message, and one with two
  messages enqueued before \<open>max = 1\<close> was set and one of them handed over.
\<close>

definition sub_max1 :: Subscription where
  "sub_max1 = (new_sub 1 ''foo'' False)
     \<lparr>max_msgs := 1, msgs := 1, bytes := 1, mch := \<lparr>items = [msg0], chan_closed = False\<rparr>\<rparr>"

definition conn_max1 :: Conn where
  "conn_max1 = conn0\<lparr>InMsgs := 1, InBytes := 1, ssid := 1, subs := [1],
                     objs := (\<lambda>k. None)(1 \<mapsto> sub_max1)\<rparr>"

definition sub_late_max :: Subscription where
  "sub_late_max = (new_sub 1 ''foo'' False)
     \<lparr>max_msgs := 1, msgs := 2, delivered := 1, bytes := 2,
      mch := \<lparr>items = [msg0], chan_closed = False\<rparr>\<rparr>"

text \<open>An asynchronous subscription after \<open>Unsubscribe\<close>: its mailbox is closed and nil.\<close>

definition sub_async_closed :: Subscription where
  "sub_async_closed = (close_mch (new_sub 1 ''foo'' True))\<lparr>sub_conn := False\<rparr>"

text \<open>
  A connection with a subscription and a flush call waiting on channel 5 when the
  socket fails, and a server that cannot be dialled again.
\<close>

definition conn_waiting :: Conn where
  "conn_waiting = conn0\<lparr>ssid := 1, subs := [1], objs := (\<lambda>k. None)(1 \<mapsto> new_sub 1 ''foo'' False),
                        pongs := [Some 5]\<rparr>"

definition no_server :: "nat \<Rightarrow> Attempt" where
  "no_server i = DialFailed"

section \<open>The writer keeps the rest of the connection and appends to the stream\<close>


lemma without_io_fields:
  "status (without_io nc) = status nc" "pongs (without_io nc) = pongs nc"
  "subs (without_io nc) = subs nc" "objs (without_io nc) = objs nc"
  "events (without_io nc) = events nc" "signals (without_io nc) = signals nc"
  "Opts (without_io nc) = Opts nc" "info (without_io nc) = info nc"
  "err (without_io nc) = err nc" "InMsgs (without_io nc) = InMsgs nc"
  "InBytes (without_io nc) = InBytes nc" "OutMsgs (without_io nc) = OutMsgs nc"
  "OutBytes (without_io nc) = OutBytes nc" "fch (without_io nc) = fch nc"
  "ssid (without_io nc) = ssid nc" "Reconnects (without_io nc) = Reconnects nc"
  "cinfo (without_io nc) = cinfo nc"
  by (simp_all add: without_io_def)

lemma sink_write_rest: "without_io (snd (sink_write t p nc)) = without_io nc"
  by (simp add: sink_write_def without_io_def split: Sink.splits option.splits)

lemma sink_write_bw: "bw (snd (sink_write t p nc)) = bw nc"
  by (simp add: sink_write_def split: Sink.splits option.splits)

lemma bw_Flush_rest: "without_io (snd (bw_Flush nc)) = without_io nc"
proof -
  obtain e n where sw: "sink_write (target (bw nc)) (wbuf (bw nc)) nc = (e, n)"
    by (cases "sink_write (target (bw nc)) (wbuf (bw nc)) nc")
  have "without_io n = without_io nc"
    using sink_write_rest [of "target (bw nc)" "wbuf (bw nc)" nc] sw by simp
  then show ?thesis
    by (cases e) (simp_all add: bw_Flush_def Let_def sw without_io_def)
qed

lemma loop_stop:
  "\<not> (length p > Available (bw nc) \<and> werr (bw nc) = None) \<Longrightarrow> bw_Write_loop p nc = (p, nc)"
  by (subst bw_Write_loop.simps) (auto simp: Let_def)

lemma loop_direct:
  "length p > Available (bw nc) \<Longrightarrow> werr (bw nc) = None \<Longrightarrow> wbuf (bw nc) = [] \<Longrightarrow>
   bw_Write_loop p nc =
     (case sink_write (target (bw nc)) p nc of
        (None, nc') \<Rightarrow> bw_Write_loop [] nc'
      | (Some e, nc') \<Rightarrow> bw_Write_loop p (nc'\<lparr>bw := (bw nc)\<lparr>werr := Some e\<rparr>\<rparr>))"
  by (subst bw_Write_loop.simps) (simp add: Let_def)

lemma loop_fill:
  "length p > Available (bw nc) \<Longrightarrow> werr (bw nc) = None \<Longrightarrow> wbuf (bw nc) \<noteq> [] \<Longrightarrow>
   bw_Write_loop p nc =
     bw_Write_loop (drop (Available (bw nc)) p)
       (snd (bw_Flush (nc\<lparr>bw := (bw nc)\<lparr>wbuf := wbuf (bw nc) @ take (Available (bw nc)) p\<rparr>\<rparr>)))"
  by (subst bw_Write_loop.simps) (simp add: Let_def)

lemma bw_Write_loop_rest: "without_io (snd (bw_Write_loop p nc)) = without_io nc"
proof (induction p nc rule: bw_Write_loop.induct)
  case (1 p nc)
  show ?case
  proof (cases "length p > Available (bw nc) \<and> werr (bw nc) = None")
    case False
    then show ?thesis using loop_stop [where p = p and nc = nc] by simp
  next
    case go: True
    show ?thesis
    proof (cases "wbuf (bw nc) = []")
      case empty: True
      obtain e n where sw: "sink_write (target (bw nc)) p nc = (e, n)"
        by (cases "sink_write (target (bw nc)) p nc")
      have n: "without_io n = without_io nc"
        using sink_write_rest [of "target (bw nc)" p nc] sw by simp
      show ?thesis
      proof (cases e)
        case None
        with "1.IH"(1) [OF refl go empty sw [symmetric]] n go empty sw show ?thesis
          by (simp add: loop_direct)
      next
        case (Some x)
        have "without_io (n\<lparr>bw := (bw nc)\<lparr>werr := Some x\<rparr>\<rparr>) = without_io n"
          by (simp add: without_io_def)
        with "1.IH"(2) [OF refl go empty sw [symmetric] Some] n go empty sw Some show ?thesis
          by (simp add: loop_direct)
      qed
    next
      case full: False
      have "without_io (nc\<lparr>bw := (bw nc)\<lparr>wbuf := wbuf (bw nc) @ take (Available (bw nc)) p\<rparr>\<rparr>) = without_io nc"
        by (simp add: without_io_def)
      with "1.IH"(3) [OF refl go full refl refl] go full show ?thesis
        by (simp add: loop_fill bw_Flush_rest)
    qed
  qed
qed

lemma bw_Write_rest: "without_io (snd (bw_Write p nc)) = without_io nc"
proof -
  obtain p' n where l: "bw_Write_loop p nc = (p', n)" by (cases "bw_Write_loop p nc")
  have "without_io n = without_io nc" using bw_Write_loop_rest [of p nc] l by simp
  moreover have "without_io (n\<lparr>bw := (bw n)\<lparr>wbuf := wbuf (bw n) @ p'\<rparr>\<rparr>) = without_io n"
    by (simp add: without_io_def)
  ultimately show ?thesis by (simp add: bw_Write_def l)
qed

lemma sink_write_writable:
  "writable nc \<Longrightarrow>
     fst (sink_write (target (bw nc)) p nc) = None \<and>
     writable (snd (sink_write (target (bw nc)) p nc)) \<and>
     sink_bytes (snd (sink_write (target (bw nc)) p nc)) = sink_bytes nc @ p \<and>
     bw (snd (sink_write (target (bw nc)) p nc)) = bw nc"
  by (cases "target (bw nc)"; cases "conn nc"; cases "pending nc")
     (auto simp: writable_def sink_write_def sink_bytes_def)

lemma bw_Flush_writable:
  assumes "writable nc"
  shows "fst (bw_Flush nc) = None \<and> writable (snd (bw_Flush nc)) \<and>
         wire (snd (bw_Flush nc)) = wire nc \<and> wbuf (bw (snd (bw_Flush nc))) = [] \<and>
         target (bw (snd (bw_Flush nc))) = target (bw nc) \<and>
         wsize (bw (snd (bw_Flush nc))) = wsize (bw nc)"
proof (cases "wbuf (bw nc) = []")
  case True
  with assms show ?thesis by (simp add: bw_Flush_def Let_def writable_def)
next
  case False
  obtain e n where sw: "sink_write (target (bw nc)) (wbuf (bw nc)) nc = (e, n)"
    by (cases "sink_write (target (bw nc)) (wbuf (bw nc)) nc")
  from sink_write_writable [OF assms, of "wbuf (bw nc)"] sw
  have n: "e = None" "writable n" "sink_bytes n = sink_bytes nc @ wbuf (bw nc)" "bw n = bw nc"
    by simp_all
  have we: "werr (bw nc) = None" using assms by (simp add: writable_def)
  have fl: "bw_Flush nc = (None, n\<lparr>bw := (bw nc)\<lparr>wbuf := []\<rparr>\<rparr>)"
    using False we sw n(1) by (simp add: bw_Flush_def Let_def)
  have "writable (n\<lparr>bw := (bw nc)\<lparr>wbuf := []\<rparr>\<rparr>)"
    using n(2,4) by (auto simp: writable_def split: Sink.splits option.splits)
  moreover have "wire (n\<lparr>bw := (bw nc)\<lparr>wbuf := []\<rparr>\<rparr>) = wire nc"
    using n(3,4) by (auto simp: wire_def sink_bytes_def split: Sink.splits option.splits)
  ultimately show ?thesis by (simp add: fl)
qed


lemma bw_Write_loop_writable:
  "writable nc \<Longrightarrow>
     writable (snd (bw_Write_loop p nc)) \<and>
     wire (snd (bw_Write_loop p nc)) @ fst (bw_Write_loop p nc) = wire nc @ p \<and>
     target (bw (snd (bw_Write_loop p nc))) = target (bw nc) \<and>
     wsize (bw (snd (bw_Write_loop p nc))) = wsize (bw nc)"
proof (induction p nc rule: bw_Write_loop.induct)
  case (1 p nc)
  note wr = \<open>writable nc\<close>
  show ?case
  proof (cases "length p > Available (bw nc) \<and> werr (bw nc) = None")
    case False
    then show ?thesis using loop_stop [where p = p and nc = nc] wr by simp
  next
    case go: True
    show ?thesis
    proof (cases "wbuf (bw nc) = []")
      case empty: True
      obtain e n where sw: "sink_write (target (bw nc)) p nc = (e, n)"
        by (cases "sink_write (target (bw nc)) p nc")
      from sink_write_writable [OF wr, of p] sw
      have n: "e = None" "writable n" "sink_bytes n = sink_bytes nc @ p" "bw n = bw nc"
        by simp_all
      have w: "wire n = wire nc @ p" using n(3,4) empty by (simp add: wire_def)
      have l: "bw_Write_loop p nc = bw_Write_loop [] n"
        using go empty sw n(1) by (simp add: loop_direct)
      from "1.IH"(1) [OF refl go empty sw [symmetric] n(1) n(2)] w n(4) show ?thesis
        by (simp add: l)
    next
      case full: False
      let ?k = "Available (bw nc)"
      let ?nc1 = "nc\<lparr>bw := (bw nc)\<lparr>wbuf := wbuf (bw nc) @ take ?k p\<rparr>\<rparr>"
      have w1: "writable ?nc1" using wr
        by (auto simp: writable_def split: Sink.splits option.splits)
      have wi1: "wire ?nc1 = wire nc @ take ?k p"
        by (auto simp: wire_def sink_bytes_def split: Sink.splits option.splits)
      note fl = bw_Flush_writable [OF w1]
      have l: "bw_Write_loop p nc = bw_Write_loop (drop ?k p) (snd (bw_Flush ?nc1))"
        using go full by (simp add: loop_fill)
      from "1.IH"(3) [OF refl go full refl refl] fl wi1 show ?thesis
        by (simp add: l)
    qed
  qed
qed

lemma bw_Write_writable:
  assumes "writable nc"
  shows "fst (bw_Write p nc) = None \<and> writable (snd (bw_Write p nc)) \<and>
         wire (snd (bw_Write p nc)) = wire nc @ p \<and>
         target (bw (snd (bw_Write p nc))) = target (bw nc) \<and>
         wsize (bw (snd (bw_Write p nc))) = wsize (bw nc)"
proof -
  obtain p' n where l: "bw_Write_loop p nc = (p', n)" by (cases "bw_Write_loop p nc")
  from bw_Write_loop_writable [OF assms, of p] l
  have n: "writable n" "wire n @ p' = wire nc @ p" "target (bw n) = target (bw nc)"
      "wsize (bw n) = wsize (bw nc)"
    by simp_all
  have we: "werr (bw n) = None" using n(1) by (simp add: writable_def)
  let ?n' = "n\<lparr>bw := (bw n)\<lparr>wbuf := wbuf (bw n) @ p'\<rparr>\<rparr>"
  have r: "bw_Write p nc = (None, ?n')" using we by (simp add: bw_Write_def l)
  have "writable ?n'" using n(1) by (auto simp: writable_def split: Sink.splits option.splits)
  moreover have "wire ?n' = wire n @ p'"
    by (auto simp: wire_def sink_bytes_def split: Sink.splits option.splits)
  ultimately show ?thesis using n by (simp add: r)
qed

lemma bw_Write_fields:
  "status (snd (bw_Write p nc)) = status nc" "pongs (snd (bw_Write p nc)) = pongs nc"
  "subs (snd (bw_Write p nc)) = subs nc" "objs (snd (bw_Write p nc)) = objs nc"
  "events (snd (bw_Write p nc)) = events nc" "signals (snd (bw_Write p nc)) = signals nc"
  "Opts (snd (bw_Write p nc)) = Opts nc" "info (snd (bw_Write p nc)) = info nc"
  "err (snd (bw_Write p nc)) = err nc" "InMsgs (snd (bw_Write p nc)) = InMsgs nc"
  "InBytes (snd (bw_Write p nc)) = InBytes nc" "OutMsgs (snd (bw_Write p nc)) = OutMsgs nc"
  "OutBytes (snd (bw_Write p nc)) = OutBytes nc" "fch (snd (bw_Write p nc)) = fch nc"
  "ssid (snd (bw_Write p nc)) = ssid nc" "Reconnects (snd (bw_Write p nc)) = Reconnects nc"
  "cinfo (snd (bw_Write p nc)) = cinfo nc"
  by (metis without_io_fields bw_Write_rest)+

lemma bw_Flush_fields:
  "status (snd (bw_Flush nc)) = status nc" "pongs (snd (bw_Flush nc)) = pongs nc"
  "subs (snd (bw_Flush nc)) = subs nc" "objs (snd (bw_Flush nc)) = objs nc"
  "events (snd (bw_Flush nc)) = events nc" "signals (snd (bw_Flush nc)) = signals nc"
  "Opts (snd (bw_Flush nc)) = Opts nc" "info (snd (bw_Flush nc)) = info nc"
  "err (snd (bw_Flush nc)) = err nc" "InMsgs (snd (bw_Flush nc)) = InMsgs nc"
  "InBytes (snd (bw_Flush nc)) = InBytes nc" "OutMsgs (snd (bw_Flush nc)) = OutMsgs nc"
  "OutBytes (snd (bw_Flush nc)) = OutBytes nc" "fch (snd (bw_Flush nc)) = fch nc"
  "ssid (snd (bw_Flush nc)) = ssid nc" "Reconnects (snd (bw_Flush nc)) = Reconnects nc"
  "cinfo (snd (bw_Flush nc)) = cinfo nc"
  by (metis without_io_fields bw_Flush_rest)+


section \<open>The PONG-waiter queue\<close>


lemma bw_WriteString_writable:
  assumes "writable nc"
  shows "fst (bw_WriteString p nc) = None \<and> writable (snd (bw_WriteString p nc)) \<and>
         wire (snd (bw_WriteString p nc)) = wire nc @ p \<and>
         target (bw (snd (bw_WriteString p nc))) = target (bw nc) \<and>
         wsize (bw (snd (bw_WriteString p nc))) = wsize (bw nc)"
  using bw_Write_writable [OF assms] by (simp add: bw_WriteString_def)

lemma processPong_Cons:
  "pongs nc = c # rest \<Longrightarrow>
   processPong nc = Inr (nc\<lparr>pongs := rest,
                             signals := signals nc @ (case c of None \<Rightarrow> [] | Some x \<Rightarrow> [x])\<rparr>)"
  by (cases c) (simp_all add: processPong_def)

lemma processPong_Nil: "pongs nc = [] \<Longrightarrow> processPong nc = Inl IndexOutOfRange"
  by (simp add: processPong_def)


lemma FlushTimeout_send_accepted:
  assumes "0 < timeout" "\<not> isClosed nc"
  shows "\<exists>nc1. FlushTimeout_send timeout ch nc = Inr nc1 \<and> pongs nc1 = pongs nc @ [Some ch] \<and>
           status nc1 = status nc \<and> signals nc1 = signals nc"
  using assms
  by (simp add: FlushTimeout_send_def Let_def bw_Flush_fields bw_Write_fields bw_WriteString_def)


lemma void_first_length [simp]: "length (void_first ch q) = length q"
  by (induction q) auto

lemma FlushTimeout_wait_timer:
  "pongs (snd (FlushTimeout_wait ch TimerFired nc)) = void_first ch (pongs nc) \<and>
   status (snd (FlushTimeout_wait ch TimerFired nc)) = status nc"
  by (simp add: FlushTimeout_wait_def removeFlushEntry_def)

lemma run_trace_covered:
  "\<not> isClosed nc \<Longrightarrow>
   (run_trace evs nc = Inl IndexOutOfRange) = (\<not> covered (length (pongs nc)) evs) \<and>
   (\<exists>nc'. run_trace evs nc = Inr nc') = covered (length (pongs nc)) evs"
proof (induction evs arbitrary: nc)
  case Nil
  then show ?case by simp
next
  case (Cons ev evs)
  show ?case
  proof (cases ev)
    case (Flush ch)
    from FlushTimeout_send_accepted [of 1 nc ch] Cons.prems
    obtain nc1 where s: "FlushTimeout_send 1 ch nc = Inr nc1" "pongs nc1 = pongs nc @ [Some ch]"
        "status nc1 = status nc"
      by auto
    have "\<not> isClosed nc1" using s(3) Cons.prems by (simp add: isClosed_def)
    from Cons.IH [OF this] s show ?thesis by (simp add: Flush)
  next
    case Pong
    show ?thesis
    proof (cases "pongs nc")
      case Nil
      then show ?thesis by (simp add: Pong processPong_Nil)
    next
      case q: (Cons c rest)
      let ?n1 = "nc\<lparr>pongs := rest, signals := signals nc @ (case c of None \<Rightarrow> [] | Some x \<Rightarrow> [x])\<rparr>"
      have "\<not> isClosed ?n1" using Cons.prems by (simp add: isClosed_def)
      from Cons.IH [OF this] show ?thesis by (simp add: Pong q processPong_Cons)
    qed
  next
    case (TimedOut ch)
    have "\<not> isClosed (snd (FlushTimeout_wait ch TimerFired nc))"
      using Cons.prems by (simp add: isClosed_def FlushTimeout_wait_timer)
    from Cons.IH [OF this] show ?thesis by (simp add: TimedOut FlushTimeout_wait_timer)
  qed
qed

lemma conn0_writable: "writable conn0"
  by (simp add: writable_def conn0_def NewWriterSize_def new_socket_def)

lemma conn0_open: "\<not> isClosed conn0"
  by (simp add: isClosed_def conn0_def)



section \<open>Replay and publish on a working writer\<close>


lemma resend_loop_wire:
  "writable nc \<Longrightarrow>
   writable (resend_loop ss nc) \<and> wire (resend_loop ss nc) = wire nc @ concat (resend_protos ss)"
proof (induction ss arbitrary: nc)
  case Nil
  then show ?case by simp
next
  case (Cons s ss)
  let ?n1 = "snd (bw_WriteString (subProto (Subject s) (Queue s) (sid s)) nc)"
  note a = bw_WriteString_writable [OF Cons.prems, of "subProto (Subject s) (Queue s) (sid s)"]
  then have w1: "writable ?n1" by simp
  show ?case
  proof (cases "max_msgs s > 0")
    case False
    with Cons.IH [OF w1] a show ?thesis by (simp add: Let_def)
  next
    case True
    let ?n2 = "snd (bw_WriteString (unsubProto (sid s) (Itoa (sint (max_msgs s)))) ?n1)"
    note b = bw_WriteString_writable [OF w1, of "unsubProto (sid s) (Itoa (sint (max_msgs s)))"]
    then have w2: "writable ?n2" by simp
    from Cons.IH [OF w2] a b True show ?thesis by (simp add: Let_def)
  qed
qed

lemma written_append: "wire nc' = wire nc @ xs \<Longrightarrow> written nc nc' = xs"
  by (simp add: written_def)

lemma resend_protos_sub:
  "s \<in> set ss \<Longrightarrow> sublist (subProto (Subject s) (Queue s) (sid s)) (concat (resend_protos ss))"
proof (induction ss)
  case Nil
  then show ?case by simp
next
  case (Cons a ss)
  show ?case
  proof (cases "s = a")
    case True
    then show ?thesis by (simp add: sublist_append)
  next
    case False
    with Cons have "sublist (subProto (Subject s) (Queue s) (sid s)) (concat (resend_protos ss))"
      by simp
    then show ?thesis by (simp add: sublist_append)
  qed
qed

lemma resend_protos_unsub:
  "s \<in> set ss \<Longrightarrow> max_msgs s > 0 \<Longrightarrow>
   sublist (unsubProto (sid s) (Itoa (sint (max_msgs s)))) (concat (resend_protos ss))"
proof (induction ss)
  case Nil
  then show ?case by simp
next
  case (Cons a ss)
  show ?case
  proof (cases "s = a")
    case True
    with Cons.prems show ?thesis by (simp add: sublist_append)
  next
    case False
    with Cons have "sublist (unsubProto (sid s) (Itoa (sint (max_msgs s)))) (concat (resend_protos ss))"
      by simp
    then show ?thesis by (simp add: sublist_append)
  qed
qed

lemma lookup_sub_registered: "lookup_sub nc k = Some s \<Longrightarrow> s \<in> set (registered nc)"
  by (auto simp: lookup_sub_def registered_def List.map_filter_def split: if_splits intro!: image_eqI [where x = k])

lemma resendSubscriptions_wire:
  "writable nc \<Longrightarrow>
   written nc (resendSubscriptions nc) = concat (resend_protos (registered nc))"
  using resend_loop_wire [of nc "registered nc"]
  by (simp add: resendSubscriptions_def written_append)

lemma conn_replay_writable: "writable conn_replay"
  by (simp add: writable_def conn_replay_def conn0_def NewWriterSize_def new_socket_def)

lemma conn_replay_registered: "registered conn_replay = [sub_replay]"
  by (simp add: registered_def conn_replay_def conn0_def)

lemma publish_writable:
  assumes "\<not> isClosed nc" "writable nc"
  shows "fst (publish subj reply data nc) = None \<and>
         writable (snd (publish subj reply data nc)) \<and>
         wire (snd (publish subj reply data nc)) =
           wire nc @ pubProto subj reply (length data) @ data @ CRLF \<and>
         OutMsgs (snd (publish subj reply data nc)) = OutMsgs nc + 1 \<and>
         OutBytes (snd (publish subj reply data nc)) = OutBytes nc + of_nat (length data) \<and>
         status (snd (publish subj reply data nc)) = status nc \<and>
         target (bw (snd (publish subj reply data nc))) = target (bw nc) \<and>
         wsize (bw (snd (publish subj reply data nc))) = wsize (bw nc)"
proof -
  let ?n1 = "snd (bw_Write (pubProto subj reply (length data)) nc)"
  let ?n2 = "snd (bw_Write data ?n1)"
  note a = bw_Write_writable [OF assms(2), of "pubProto subj reply (length data)"]
  then have w1: "writable ?n1" by simp
  note b = bw_Write_writable [OF w1, of data]
  then have w2: "writable ?n2" by simp
  note c = bw_WriteString_writable [OF w2, of CRLF]
  obtain e n3 where r: "bw_WriteString CRLF ?n2 = (e, n3)" by (cases "bw_WriteString CRLF ?n2")
  from c r have e: "e = None" and n3: "writable n3" "wire n3 = wire ?n2 @ CRLF"
      "target (bw n3) = target (bw ?n2)" "wsize (bw n3) = wsize (bw ?n2)"
    by simp_all
  have f: "OutMsgs n3 = OutMsgs nc" "OutBytes n3 = OutBytes nc" "status n3 = status nc"
    using r bw_Write_fields [of CRLF ?n2] bw_Write_fields [of data ?n1]
      bw_Write_fields [of "pubProto subj reply (length data)" nc]
    by (simp_all add: bw_WriteString_def)
  let ?n5 = "n3\<lparr>err := None, OutMsgs := OutMsgs n3 + 1, OutBytes := OutBytes n3 + of_nat (length data)\<rparr>"
  have p: "publish subj reply data nc = (None, kickFlusher ?n5)"
    using assms(1) r e by (simp add: publish_def Let_def)
  have k: "writable (kickFlusher ?n5)" "wire (kickFlusher ?n5) = wire n3"
      "target (bw (kickFlusher ?n5)) = target (bw n3)" "wsize (bw (kickFlusher ?n5)) = wsize (bw n3)"
    using n3(1)
    by (auto simp: kickFlusher_def writable_def wire_def sink_bytes_def split: Sink.splits option.splits)
  show ?thesis using a b n3 f k by (simp add: p kickFlusher_def)
qed






section \<open>Counters, mailboxes and the reconnect loop\<close>


lemma unat_plus1: "unat (x :: u64) < unat (y :: u64) \<Longrightarrow> unat (x + 1) = unat x + 1"
proof -
  assume a: "unat x < unat y"
  have "unat y < 2 ^ 64" using unsigned_less [of y] by simp
  with a have "unat x + unat (1 :: u64) < 2 ^ LENGTH(64)" by simp
  then have "unat (x + 1) = unat x + unat (1 :: u64)"
    by (simp only: unat_add_lem [THEN iffD1])
  then show ?thesis by simp
qed

lemma unat_plus1_not_max: "(x :: u64) \<noteq> - 1 \<Longrightarrow> unat (x + 1) = unat x + 1"
proof -
  assume "x \<noteq> - 1"
  then have "1 + x \<noteq> 0" by (metis add.commute add_eq_0_iff2 minus_equation_iff)
  from unatSuc [OF this] show ?thesis by (simp add: add.commute)
qed

lemma sub_inv_le: "sub_inv s \<Longrightarrow> delivered s \<le> msgs s"
  by (simp add: sub_inv_def word_le_nat_alt)

lemma sub_inv_new_sub: "sub_inv (new_sub k subj cb)"
  by (simp add: sub_inv_def new_sub_def)

lemma sub_inv_close_mch: "sub_inv (close_mch s) = sub_inv s"
  by (simp add: sub_inv_def close_mch_def)

lemma close_mch_idem [simp]: "close_mch (close_mch s) = close_mch s"
  by (simp add: close_mch_def)

lemma close_subs_apply:
  "close_subs ks h k = (if k \<in> set ks then map_option close_mch (h k) else h k)"
proof (induction ks arbitrary: h)
  case Nil
  then show ?case by simp
next
  case (Cons a ks)
  show ?case
    by (cases "h a") (auto simp: Cons.IH)
qed

lemma Close_objs:
  "objs (Close nc) k =
     (if isClosed nc then objs nc k
      else if k \<in> set (subs nc) then map_option close_mch (objs nc k) else objs nc k)"
  by (simp add: Close_def Let_def add_event_def close_socket_def bw_Flush_fields
      clearPendingFlushCalls_def kickFlusher_def close_subs_apply)

lemma Close_keeps_inv:
  "objs nc k = Some s \<Longrightarrow> sub_inv s \<Longrightarrow> \<exists>s'. objs (Close nc) k = Some s' \<and> sub_inv s'"
  by (auto simp: Close_objs sub_inv_close_mch)

lemma Close_err_objs: "objs (Close (nc\<lparr>err := e\<rparr>)) k = objs (Close nc) k"
  by (simp add: Close_objs isClosed_def)

lemma processSlowConsumer_objs:
  "objs (processSlowConsumer k nc) j =
     (if j = k then map_option (\<lambda>s. s\<lparr>sc := True\<rparr>) (objs nc k) else objs nc j)"
  by (simp add: processSlowConsumer_def Let_def add_event_def)

lemma processMsg_keeps_inv:
  assumes "sub_inv s" "lookup_sub nc k = Some s" "msgs s \<noteq> - 1"
  shows "case processMsg parsed payload nc of
           Inl e \<Rightarrow> True
         | Inr nc' \<Rightarrow> \<exists>s'. objs nc' k = Some s' \<and> sub_inv s'"
proof -
  from assms(2) have o: "objs nc k = Some s" and r: "k \<in> set (subs nc)"
    by (auto simp: lookup_sub_def split: if_splits)
  note c = Close_keeps_inv [OF o assms(1)]
  show ?thesis
  proof (cases parsed)
    case None
    with c show ?thesis by (simp add: processMsg_def Close_err_objs)
  next
    case (Some q)
    obtain subj j reply blen where q: "q = (subj, j, reply, blen)" by (cases q) auto
    show ?thesis
    proof (cases "blen < 0")
      case True
      then show ?thesis by (simp add: processMsg_def Some q)
    next
      case nonneg: False
      show ?thesis
      proof (cases payload)
        case (Inl e)
        with c nonneg show ?thesis by (simp add: processMsg_def Some q Close_err_objs)
      next
        case (Inr buf)
        show ?thesis
        proof (cases "int (length buf) = blen")
          case False
          with c nonneg show ?thesis by (simp add: processMsg_def Some q Inr Close_err_objs)
        next
          case len: True
          show ?thesis
          proof (cases "j = k")
            case False
            with o assms(1) nonneg len show ?thesis
              by (auto simp: processMsg_def Some q Inr Let_def lookup_sub_def
                  processSlowConsumer_objs split: option.splits)
          next
            case True
            have u: "unat (msgs s + 1) = unat (msgs s) + 1"
              using assms(3) by (rule unat_plus1_not_max)
            from True o r assms(1) nonneg len u show ?thesis
              by (auto simp: processMsg_def Some q Inr Let_def lookup_sub_def
                  processSlowConsumer_objs sub_inv_def)
          qed
        qed
      qed
    qed
  qed
qed

lemma deliverMsgs_step_keeps_inv:
  assumes "sub_inv s" "deliverMsgs_step c s = Some s'"
  shows "sub_inv s'"
proof (cases "items (mch s)")
  case Nil
  with assms show ?thesis by (simp add: deliverMsgs_step_def split: if_splits)
next
  case (Cons m rest)
  with assms(1) have "unat (delivered s) < unat (msgs s)" by (simp add: sub_inv_def)
  from unat_plus1 [OF this] assms Cons show ?thesis
    by (auto simp: deliverMsgs_step_def Let_def sub_inv_def split: if_splits)
qed

lemma deliverMsgs_keeps_inv: "sub_inv s \<Longrightarrow> sub_inv (deliverMsgs c s)"
proof (induction c s rule: deliverMsgs.induct)
  case (1 c s)
  show ?case
  proof (cases "deliverMsgs_step c s")
    case None
    with "1.prems" show ?thesis by (simp add: deliverMsgs.simps [of c s])
  next
    case (Some s')
    from deliverMsgs_step_keeps_inv [OF "1.prems" Some] have "sub_inv s'" .
    from "1.IH" [OF Some this] Some show ?thesis by (simp add: deliverMsgs.simps [of c s])
  qed
qed

lemma NextMsg_keeps_inv:
  assumes "sub_inv s"
  shows "sub_inv (snd (NextMsg t s))"
proof (cases "items (mch s)")
  case Nil
  with assms show ?thesis by (simp add: NextMsg_def sub_inv_def)
next
  case (Cons m rest)
  with assms have "unat (delivered s) < unat (msgs s)" by (simp add: sub_inv_def)
  from unat_plus1 [OF this] assms Cons show ?thesis
    by (simp add: NextMsg_def Let_def sub_inv_def)
qed

lemma NextMsg_within_max:
  "fst (fst (NextMsg t s)) \<noteq> None \<Longrightarrow>
   max_msgs s = 0 \<or> delivered (snd (NextMsg t s)) \<le> max_msgs s"
  by (auto simp: NextMsg_def Let_def word_gt_0 split: if_splits list.splits)

lemma deliverMsgs_step_within_max:
  "deliverMsgs_step c s = Some s' \<Longrightarrow> handled s' \<noteq> handled s \<Longrightarrow>
   max_msgs s = 0 \<or> delivered s' \<le> max_msgs s"
  by (auto simp: deliverMsgs_step_def Let_def split: if_splits list.splits)



lemma processMsg_slow:
  assumes "lookup_sub nc k = Some s" "\<not> mch_nil s" "maxChanLen \<le> length (items (mch s))"
    "\<not> (max_msgs s > 0 \<and> msgs s > max_msgs s)"
  shows "\<exists>nc'. processMsg (Some (subj, k, reply, int (length buf))) (Inr buf) nc = Inr nc' \<and>
           objs nc' k = Some (s\<lparr>msgs := msgs s + 1, bytes := bytes s + of_nat (length buf),
                                  sc := True\<rparr>) \<and>
           err nc' = Some ErrSlowConsumer \<and>
           events nc' = events nc @
             (if AsyncErrorCB (Opts nc) then [EvAsyncErrorCB k (Some ErrSlowConsumer)] else []) \<and>
           InMsgs nc' = InMsgs nc + 1 \<and> InBytes nc' = InBytes nc + of_nat (length buf)"
  using assms
  by (auto simp: processMsg_def Let_def lookup_sub_def processSlowConsumer_def add_event_def
      split: if_splits)

lemma processMsg_over_max:
  assumes "lookup_sub nc k = Some s" "max_msgs s > 0" "msgs s > max_msgs s"
  shows "processMsg (Some (subj, k, reply, int (length buf))) (Inr buf) nc =
           Inr (nc\<lparr>InMsgs := InMsgs nc + 1, InBytes := InBytes nc + of_nat (length buf)\<rparr>)"
  using assms by (auto simp: processMsg_def Let_def lookup_sub_def split: if_splits)

lemma conn_full_lookup: "lookup_sub conn_full 1 = Some sub_full"
  by (simp add: lookup_sub_def conn_full_def conn0_def)

lemma NextMsg_cases:
  "(mch_nil s \<longrightarrow> NextMsg t s = ((None, Some ErrConnectionClosed), s)) \<and>
   (\<not> mch_nil s \<and> mcb s \<longrightarrow>
      NextMsg t s = ((None, Some (ErrNew ''nats: Illegal call on an async Subscription'')), s)) \<and>
   (\<not> mch_nil s \<and> \<not> mcb s \<and> sub_conn s \<and> sc s \<longrightarrow>
      NextMsg t s = ((None, Some ErrSlowConsumer), s\<lparr>sc := False\<rparr>)) \<and>
   (\<not> mch_nil s \<and> \<not> mcb s \<and> sub_conn s \<and> \<not> sc s \<and>
      (t \<or> (items (mch s) = [] \<and> \<not> chan_closed (mch s))) \<longrightarrow>
      NextMsg t s = ((None, Some ErrTimeout), s)) \<and>
   (\<not> mch_nil s \<and> \<not> mcb s \<and> sub_conn s \<and> \<not> sc s \<and> \<not> t \<and> items (mch s) = m # rest \<and>
      max_msgs s > 0 \<and> delivered s + 1 > max_msgs s \<longrightarrow>
      NextMsg t s = ((None, Some (ErrNew ''nats: Max messages delivered'')),
                     s\<lparr>mch := (mch s)\<lparr>items := rest\<rparr>, delivered := delivered s + 1\<rparr>))"
  by (simp add: NextMsg_def Let_def)

lemma sub_async_closed_reached:
  "objs (snd (unsubscribe 1 0 (snd (subscribe ''foo'' [] True conn0)))) 1 = Some sub_async_closed"
  by (simp add: subscribe_def unsubscribe_def isClosed_def isReconnecting_def conn0_def Let_def
      add_event_def lookup_sub_def kickFlusher_def sub_async_closed_def bw_Write_fields
      bw_WriteString_def)

lemma doReconnect_loop_no_server:
  "\<not> isClosed nc \<Longrightarrow>
   doReconnect_loop i n no_server nc =
     LoopEnded (if n = 0 then nc else nc\<lparr>conn := None, err := None\<rparr>)"
proof (induction n arbitrary: i nc)
  case 0
  then show ?case by simp
next
  case (Suc n)
  let ?n1 = "nc\<lparr>conn := None, err := None\<rparr>"
  have c: "\<not> isClosed ?n1" using Suc.prems by (simp add: isClosed_def)
  from Suc.IH [OF c, of "Suc i"] Suc.prems show ?case
    by (simp add: no_server_def createConn_def Let_def)
qed

lemma conn_waiting_reconnect:
  "status (processReconnect conn_waiting) = RECONNECTING \<and>
   pongs (processReconnect conn_waiting) = [Some 5] \<and>
   signals (processReconnect conn_waiting) = [] \<and>
   events (processReconnect conn_waiting) = [EvGo ''doReconnect'', EvDisconnectedCB] \<and>
   subs (processReconnect conn_waiting) = [1] \<and>
   objs (processReconnect conn_waiting) 1 = Some (new_sub 1 ''foo'' False)"
  by (simp add: processReconnect_def isClosed_def Let_def conn_waiting_def conn0_def opts0_def
      add_event_def kickFlusher_def close_socket_def bw_Flush_fields)

lemma Close_releases:
  assumes "\<not> isClosed nc"
  shows "status (Close nc) = CLOSED \<and> pongs (Close nc) = [] \<and>
         signals (Close nc) = signals nc @ List.map_filter (\<lambda>c. c) (pongs nc) \<and>
         subs (Close nc) = [] \<and>
         (lookup_sub nc k = Some s \<longrightarrow> objs (Close nc) k = Some (close_mch s)) \<and>
         (ClosedCB (Opts nc) \<longrightarrow> last (events (Close nc)) = EvClosedCB)"
  using assms
  by (auto simp: Close_def Let_def add_event_def close_socket_def bw_Flush_fields
      clearPendingFlushCalls_def kickFlusher_def close_subs_apply lookup_sub_def split: if_splits)



lemma kickFlusher_fields:
  "objs (kickFlusher nc) = objs nc" "subs (kickFlusher nc) = subs nc"
  "status (kickFlusher nc) = status nc" "InMsgs (kickFlusher nc) = InMsgs nc"
  "InBytes (kickFlusher nc) = InBytes nc"
  by (simp_all add: kickFlusher_def)

lemma sub_late_max_reached:
  "\<exists>n1 n2 s. processMsg (Some (''foo'', 1, [], 1)) (Inr ''x'')
                (snd (subscribe ''foo'' [] False conn0)) = Inr n1 \<and>
      processMsg (Some (''foo'', 1, [], 1)) (Inr ''x'') n1 = Inr n2 \<and>
      objs (snd (AutoUnsubscribe 1 1 n2)) 1 = Some s \<and>
      snd (NextMsg False s) = sub_late_max"
  by (simp add: subscribe_def AutoUnsubscribe_def unsubscribe_def processMsg_def NextMsg_def
      isClosed_def isReconnecting_def conn0_def Let_def lookup_sub_def kickFlusher_fields
      bw_Write_fields bw_WriteString_def new_sub_def maxChanLen_def sub_late_max_def msg0_def)


section \<open>The claims\<close>



text \<open>
  Claim C10. \<open>processPong\<close> reads the head of the PONG-waiter queue without a length
  check, so it panics with an index out of range exactly when the queue is empty. Along
  a trace of flush calls, PONG lines and flush timeouts on a connection that is not
  closed, the reader panics exactly when some PONG arrives with no waiter left from an
  earlier flush call, and runs through otherwise.
\<close>

theorem processPong_in_bounds_iff_covered:
  assumes "\<not> isClosed nc"
  shows "(processPong nc = Inl IndexOutOfRange) = (pongs nc = []) \<and>
         (run_trace evs nc = Inl IndexOutOfRange) = (\<not> covered (length (pongs nc)) evs) \<and>
         (\<exists>nc'. run_trace evs nc = Inr nc') = covered (length (pongs nc)) evs"
proof -
  have "(processPong nc = Inl IndexOutOfRange) = (pongs nc = [])"
    by (cases "pongs nc") (simp_all add: processPong_Nil processPong_Cons)
  with run_trace_covered [OF assms, of evs] show ?thesis by simp
qed

theorem processPong_in_bounds_iff_covered_witness:
  "processPong conn0 = Inl IndexOutOfRange \<and>
   run_trace [Flush 7, Pong, Pong] conn0 = Inl IndexOutOfRange \<and>
   (\<exists>nc'. run_trace [Flush 7, Pong, TimedOut 7] conn0 = Inr nc')"
proof -
  have q: "pongs conn0 = []" by (simp add: conn0_def)
  from processPong_in_bounds_iff_covered [OF conn0_open, of "[Flush 7, Pong, Pong]"] q
  have a: "processPong conn0 = Inl IndexOutOfRange"
      "run_trace [Flush 7, Pong, Pong] conn0 = Inl IndexOutOfRange"
    by simp_all
  from processPong_in_bounds_iff_covered [OF conn0_open, of "[Flush 7, Pong, TimedOut 7]"] q
  have "\<exists>nc'. run_trace [Flush 7, Pong, TimedOut 7] conn0 = Inr nc'" by simp
  with a show ?thesis by blast
qed


text \<open>
  Claim C1, as amended. On a working writer \<open>resendSubscriptions\<close> writes, for every
  subscription of the registry, its \<open>SUB\<close> line and, when its \<open>max\<close> is positive, an
  \<open>UNSUB\<close> line whose count is \<open>max\<close> itself; the delivered counter plays no part.
  What it writes is the lines of the registered subscriptions, one after the other.
\<close>

theorem resendSubscriptions_replays_max:
  assumes "writable nc" "lookup_sub nc k = Some s"
  shows "sublist (subProto (Subject s) (Queue s) (sid s)) (written nc (resendSubscriptions nc)) \<and>
         (max_msgs s > 0 \<longrightarrow>
            sublist (unsubProto (sid s) (Itoa (sint (max_msgs s))))
              (written nc (resendSubscriptions nc))) \<and>
         written nc (resendSubscriptions nc) = concat (resend_protos (registered nc))"
proof -
  from lookup_sub_registered [OF assms(2)] have m: "s \<in> set (registered nc)" .
  note w = resendSubscriptions_wire [OF assms(1)]
  from resend_protos_sub [OF m] resend_protos_unsub [OF m] w show ?thesis by simp
qed

theorem resendSubscriptions_replays_max_witness:
  "sublist (''SUB foo  1'' @ CRLF) (written conn_replay (resendSubscriptions conn_replay)) \<and>
   sublist (''UNSUB 1 10'' @ CRLF) (written conn_replay (resendSubscriptions conn_replay))"
proof -
  have d: "lookup_sub conn_replay 1 = Some sub_replay"
    by (simp add: lookup_sub_def conn_replay_def conn0_def)
  note r = resendSubscriptions_replays_max [OF conn_replay_writable d]
  from r [THEN conjunct1] r [THEN conjunct2, THEN conjunct1]
  show ?thesis
    by (simp add: sub_replay_def new_sub_def subProto_def unsubProto_def Itoa_def digit_char_def)
qed

text \<open>
  Claim C1 as written fails: with \<open>max = 10\<close> and three messages delivered the replay
  writes \<open>UNSUB 1 10\<close>, and the line with the remaining count, \<open>UNSUB 1 7\<close>, is not in
  what it writes.
\<close>

theorem resendSubscriptions_remaining_counterexample:
  "lookup_sub conn_replay 1 = Some sub_replay \<and> max_msgs sub_replay = 10 \<and>
   delivered sub_replay = 3 \<and>
   written conn_replay (resendSubscriptions conn_replay) =
     ''SUB foo  1'' @ CRLF @ ''UNSUB 1 10'' @ CRLF \<and>
   \<not> sublist (unsubProto 1 (Itoa (sint (max_msgs sub_replay - delivered sub_replay))))
       (written conn_replay (resendSubscriptions conn_replay))"
proof -
  have a: "written conn_replay (resendSubscriptions conn_replay) =
      ''SUB foo  1'' @ CRLF @ ''UNSUB 1 10'' @ CRLF"
    using resendSubscriptions_wire [OF conn_replay_writable]
    by (simp add: conn_replay_registered sub_replay_def new_sub_def subProto_def unsubProto_def
        Itoa_def digit_char_def)
  have b: "unsubProto 1 (Itoa (sint (max_msgs sub_replay - delivered sub_replay))) = ''UNSUB 1 7'' @ CRLF"
    by (simp add: sub_replay_def new_sub_def unsubProto_def Itoa_def digit_char_def)
  have c: "\<not> sublist (''UNSUB 1 7'' @ CRLF) (''SUB foo  1'' @ CRLF @ ''UNSUB 1 10'' @ CRLF)"
    by (simp add: CRLF_def sublist_Cons_right)
  have d: "lookup_sub conn_replay 1 = Some sub_replay"
    by (simp add: lookup_sub_def conn_replay_def conn0_def)
  show ?thesis using a b c d by (simp add: sub_replay_def new_sub_def)
qed






text \<open>
  Claim C9, as amended. \<open>publish\<close> does not consult the \<open>max_payload\<close> of the server
  information. On a connection that is not closed and whose writer works, a publish
  whose payload is longer than \<open>max_payload\<close> returns no error, appends the whole
  \<open>PUB\<close> frame to the writer and counts the message and its bytes.
\<close>

theorem publish_ignores_max_payload:
  assumes "\<not> isClosed nc" "writable nc" "sint (MaxPayload (info nc)) < int (length data)"
  shows "fst (publish subj reply data nc) = None \<and>
         written nc (snd (publish subj reply data nc)) =
           pubProto subj reply (length data) @ data @ CRLF \<and>
         OutMsgs (snd (publish subj reply data nc)) = OutMsgs nc + 1 \<and>
         OutBytes (snd (publish subj reply data nc)) = OutBytes nc + of_nat (length data)"
  using publish_writable [OF assms(1,2), of subj reply data]
  by (simp add: written_append)

theorem publish_ignores_max_payload_witness:
  "sint (MaxPayload (info conn0)) < int (length ''hello'') \<and>
   fst (publish ''foo'' [] ''hello'' conn0) = None \<and>
   written conn0 (snd (publish ''foo'' [] ''hello'' conn0)) =
     ''PUB foo  5'' @ CRLF @ ''hello'' @ CRLF \<and>
   OutMsgs (snd (publish ''foo'' [] ''hello'' conn0)) = 1"
proof -
  have m: "sint (MaxPayload (info conn0)) < int (length ''hello'')"
    by (simp add: conn0_def info0_def)
  have o: "OutMsgs conn0 = 0" by (simp add: conn0_def)
  from publish_ignores_max_payload [OF conn0_open conn0_writable m, of "''foo''" "[]"] m o
  show ?thesis by (simp add: pubProto_def digit_char_def)
qed

text \<open>
  Claim C9 as written fails: with \<open>max_payload = 4\<close> a publish of five bytes returns
  no error, the frame is in the writer and the message is counted.
\<close>

theorem publish_max_payload_counterexample:
  "sint (MaxPayload (info conn0)) < int (length ''hello'') \<and>
   fst (publish ''foo'' [] ''hello'' conn0) = None \<and>
   wbuf (bw (snd (publish ''foo'' [] ''hello'' conn0))) = ''PUB foo  5'' @ CRLF @ ''hello'' @ CRLF \<and>
   OutMsgs (snd (publish ''foo'' [] ''hello'' conn0)) = 1"
  by (simp add: publish_def isClosed_def conn0_def bw_Write_def bw_WriteString_def
      loop_stop Available_def NewWriterSize_def defaultBufSize_def pubProto_def Let_def
      digit_char_def CRLF_def kickFlusher_def info0_def)



text \<open>
  Claim C2, as amended. A new subscription has delivered nothing and queued nothing,
  and \<open>processMsg\<close> (until the 64-bit counter \<open>msgs\<close> wraps), the loop of
  \<open>deliverMsgs\<close> and \<open>NextMsg\<close> keep the number of messages delivered plus the number
  still in the mailbox at most \<open>msgs\<close>; so the delivered counter is at most the
  enqueued-message counter. The delivered counter is not bounded by \<open>max\<close>: both
  consumers add one to it first and compare with \<open>max\<close> afterwards. What holds is that
  \<open>NextMsg\<close> returns a message, and \<open>deliverMsgs\<close> calls the callback, only when
  \<open>max\<close> is zero or the counter just incremented is at most \<open>max\<close>.
\<close>

theorem delivered_le_msgs_preserved:
  "sub_inv (new_sub k subj cb) \<and>
   (sub_inv s \<longrightarrow> delivered s \<le> msgs s) \<and>
   (sub_inv s \<and> lookup_sub nc k = Some s \<and> msgs s \<noteq> - 1 \<longrightarrow>
      (case processMsg parsed payload nc of
         Inl e \<Rightarrow> True
       | Inr nc' \<Rightarrow> \<exists>s'. objs nc' k = Some s' \<and> sub_inv s')) \<and>
   (sub_inv s \<longrightarrow> sub_inv (deliverMsgs nc_closed s)) \<and>
   (sub_inv s \<longrightarrow> sub_inv (snd (NextMsg timer_first s))) \<and>
   (fst (fst (NextMsg timer_first s)) \<noteq> None \<longrightarrow>
      max_msgs s = 0 \<or> delivered (snd (NextMsg timer_first s)) \<le> max_msgs s) \<and>
   (deliverMsgs_step nc_closed s = Some s' \<and> handled s' \<noteq> handled s \<longrightarrow>
      max_msgs s = 0 \<or> delivered s' \<le> max_msgs s)"
  using sub_inv_new_sub [of k subj cb] sub_inv_le [of s]
    processMsg_keeps_inv [of s nc k parsed payload]
    deliverMsgs_keeps_inv [of s nc_closed] NextMsg_keeps_inv [of s timer_first]
    NextMsg_within_max [of timer_first s] deliverMsgs_step_within_max [of nc_closed s s']
  by blast

theorem delivered_le_msgs_preserved_witness:
  "sub_inv sub_max1 \<and> delivered sub_max1 \<le> msgs sub_max1 \<and>
   (\<exists>nc' s'. processMsg (Some (''foo'', 1, [], 1)) (Inr ''y'') conn_max1 = Inr nc' \<and>
      objs nc' 1 = Some s' \<and> sub_inv s') \<and>
   sub_inv (deliverMsgs False sub_max1) \<and>
   sub_inv (snd (NextMsg False sub_max1)) \<and>
   delivered (snd (NextMsg False sub_max1)) \<le> max_msgs sub_max1"
proof -
  have i: "sub_inv sub_max1" by (simp add: sub_inv_def sub_max1_def new_sub_def)
  have l: "lookup_sub conn_max1 1 = Some sub_max1"
    by (simp add: lookup_sub_def conn_max1_def conn0_def)
  have m: "msgs sub_max1 \<noteq> - 1" "max_msgs sub_max1 \<noteq> 0"
    by (simp_all add: sub_max1_def new_sub_def)
  have r: "fst (fst (NextMsg False sub_max1)) \<noteq> None"
    by (simp add: NextMsg_def sub_max1_def new_sub_def Let_def)
  obtain nc' where e: "processMsg (Some (''foo'', 1, [], 1)) (Inr ''y'') conn_max1 = Inr nc'"
    by (simp add: processMsg_def Let_def lookup_sub_def conn_max1_def conn0_def sub_max1_def
        new_sub_def maxChanLen_def)
  note t = delivered_le_msgs_preserved [of 1 "''foo''" False sub_max1 conn_max1
      "Some (''foo'', 1, [], 1)" "Inr ''y''" False False sub_max1]
  from t i l m r e show ?thesis by auto
qed

text \<open>
  Claim C2 as written fails. Subscribe, receive two messages, call
  \<open>AutoUnsubscribe(1)\<close>, pull one message: the counters are \<open>delivered = 1\<close>,
  \<open>msgs = 2\<close>, \<open>max = 1\<close>, and both bounds hold. The next \<open>NextMsg\<close> returns the
  max-messages error and leaves \<open>delivered = 2\<close>, above \<open>max\<close>.
\<close>

theorem delivered_le_max_counterexample:
  "(\<exists>n1 n2 s. processMsg (Some (''foo'', 1, [], 1)) (Inr ''x'')
                (snd (subscribe ''foo'' [] False conn0)) = Inr n1 \<and>
      processMsg (Some (''foo'', 1, [], 1)) (Inr ''x'') n1 = Inr n2 \<and>
      objs (snd (AutoUnsubscribe 1 1 n2)) 1 = Some s \<and>
      snd (NextMsg False s) = sub_late_max) \<and>
   0 < max_msgs sub_late_max \<and>
   delivered sub_late_max \<le> msgs sub_late_max \<and>
   delivered sub_late_max \<le> max_msgs sub_late_max \<and>
   max_msgs (snd (NextMsg False sub_late_max)) = 1 \<and>
   delivered (snd (NextMsg False sub_late_max)) = 2 \<and>
   \<not> delivered (snd (NextMsg False sub_late_max)) \<le> max_msgs (snd (NextMsg False sub_late_max))"
proof -
  have "0 < max_msgs sub_late_max \<and>
      delivered sub_late_max \<le> msgs sub_late_max \<and>
      delivered sub_late_max \<le> max_msgs sub_late_max \<and>
      max_msgs (snd (NextMsg False sub_late_max)) = 1 \<and>
      delivered (snd (NextMsg False sub_late_max)) = 2 \<and>
      \<not> delivered (snd (NextMsg False sub_late_max)) \<le> max_msgs (snd (NextMsg False sub_late_max))"
    by (simp add: NextMsg_def sub_late_max_def new_sub_def Let_def word_le_nat_alt)
  with sub_late_max_reached show ?thesis by blast
qed

text \<open>
  Claim C3, as amended. When a message arrives for a registered subscription whose
  mailbox holds \<open>maxChanLen\<close> (8192) messages or more, and the subscription is not
  beyond its \<open>max\<close>, \<open>processMsg\<close> sets the slow-consumer flag, records
  \<open>ErrSlowConsumer\<close>, starts the error handler once if one is registered, and does
  not enqueue the message. The counters are not left alone: the connection's \<open>InMsgs\<close>
  and \<open>InBytes\<close> and the subscription's \<open>msgs\<close> and \<open>bytes\<close> have all been
  incremented before the mailbox is looked at.
\<close>

theorem processMsg_full_mailbox:
  assumes "lookup_sub nc k = Some s" "\<not> mch_nil s" "maxChanLen \<le> length (items (mch s))"
    "\<not> (max_msgs s > 0 \<and> msgs s > max_msgs s)"
  shows "\<exists>nc'. processMsg (Some (subj, k, reply, int (length buf))) (Inr buf) nc = Inr nc' \<and>
           objs nc' k = Some (s\<lparr>msgs := msgs s + 1, bytes := bytes s + of_nat (length buf),
                                  sc := True\<rparr>) \<and>
           err nc' = Some ErrSlowConsumer \<and>
           events nc' = events nc @
             (if AsyncErrorCB (Opts nc) then [EvAsyncErrorCB k (Some ErrSlowConsumer)] else []) \<and>
           InMsgs nc' = InMsgs nc + 1 \<and> InBytes nc' = InBytes nc + of_nat (length buf)"
  using assms by (rule processMsg_slow)

theorem processMsg_full_mailbox_witness:
  "\<exists>nc'. processMsg (Some (''foo'', 1, [], 1)) (Inr ''x'') conn_full = Inr nc' \<and>
      objs nc' 1 = Some (sub_full\<lparr>msgs := 8193, bytes := 8193, sc := True\<rparr>) \<and>
      err nc' = Some ErrSlowConsumer \<and>
      events nc' = [EvAsyncErrorCB 1 (Some ErrSlowConsumer)] \<and>
      InMsgs nc' = 8193 \<and> InBytes nc' = 8193"
proof -
  have a: "\<not> mch_nil sub_full" "maxChanLen \<le> length (items (mch sub_full))"
      "\<not> (max_msgs sub_full > 0 \<and> msgs sub_full > max_msgs sub_full)"
    by (simp_all add: sub_full_def new_sub_def)
  have b: "msgs sub_full = 8192" "bytes sub_full = 8192" "events conn_full = []"
      "AsyncErrorCB (Opts conn_full)" "InMsgs conn_full = 8192" "InBytes conn_full = 8192"
    by (simp_all add: sub_full_def new_sub_def conn_full_def conn0_def opts0_def)
  from processMsg_full_mailbox [OF conn_full_lookup a, of "''foo''" "[]" "''x''"] b
  show ?thesis by simp
qed

text \<open>
  Claim C3 as written fails: on a full mailbox the message is dropped and the flag is
  set, but the four counters each go up, here from 8192 to 8193.
\<close>

theorem processMsg_full_mailbox_counterexample:
  "length (items (mch sub_full)) = maxChanLen \<and>
   (\<exists>nc' s'. processMsg (Some (''foo'', 1, [], 1)) (Inr ''x'') conn_full = Inr nc' \<and>
      objs nc' 1 = Some s' \<and> sc s' \<and> items (mch s') = items (mch sub_full) \<and>
      events nc' = [EvAsyncErrorCB 1 (Some ErrSlowConsumer)] \<and>
      InMsgs conn_full = 8192 \<and> InMsgs nc' = 8193 \<and>
      InBytes conn_full = 8192 \<and> InBytes nc' = 8193 \<and>
      msgs sub_full = 8192 \<and> msgs s' = 8193 \<and>
      bytes sub_full = 8192 \<and> bytes s' = 8193)"
proof -
  have a: "\<not> mch_nil sub_full" "maxChanLen \<le> length (items (mch sub_full))"
      "\<not> (max_msgs sub_full > 0 \<and> msgs sub_full > max_msgs sub_full)"
    by (simp_all add: sub_full_def new_sub_def)
  from processMsg_slow [OF conn_full_lookup a, of "''foo''" "[]" "''x''"]
  show ?thesis
    by (auto simp: sub_full_def new_sub_def conn_full_def conn0_def opts0_def)
qed


text \<open>
  Claim C4 says that a subscription with \<open>max > 0\<close> whose enqueued-message counter has
  reached \<open>max\<close> takes no further message. The guard of \<open>processMsg\<close> is
  \<open>sub.msgs > sub.max\<close>, tested before the counter is incremented: with \<open>max = 1\<close>
  and one message enqueued, the next message is still counted and enqueued.
\<close>

theorem processMsg_at_max_enqueues:
  "max_msgs sub_max1 = 1 \<and> msgs sub_max1 = 1 \<and> lookup_sub conn_max1 1 = Some sub_max1 \<and>
   (\<exists>nc' s'. processMsg (Some (''foo'', 1, [], 1)) (Inr ''y'') conn_max1 = Inr nc' \<and>
      objs nc' 1 = Some s' \<and> msgs s' = 2 \<and> bytes s' = 2 \<and>
      items (mch s') = [msg0, \<lparr>msg_Subject = ''foo'', msg_Reply = [], msg_Data = ''y'', msg_Sub = 1\<rparr>])"
  by (simp add: processMsg_def Let_def lookup_sub_def conn_max1_def conn0_def sub_max1_def
      new_sub_def maxChanLen_def)


text \<open>
  Claim C5, as amended. \<open>NextMsg\<close> returns, in this order of checks:
  \<open>ErrConnectionClosed\<close> when the mailbox is nil, for any subscription; the
  illegal-call error when the mailbox is not nil and the subscription has a callback;
  for a synchronous subscription still bound to its connection, \<open>ErrSlowConsumer\<close>
  when the flag is set, clearing it; \<open>ErrTimeout\<close> when the timer fires before a
  message is there; and the max-messages error when \<open>max > 0\<close> and the delivered
  counter after the receive is above \<open>max\<close>.
\<close>

theorem NextMsg_error_order:
  "(mch_nil s \<longrightarrow> NextMsg t s = ((None, Some ErrConnectionClosed), s)) \<and>
   (\<not> mch_nil s \<and> mcb s \<longrightarrow>
      NextMsg t s = ((None, Some (ErrNew ''nats: Illegal call on an async Subscription'')), s)) \<and>
   (\<not> mch_nil s \<and> \<not> mcb s \<and> sub_conn s \<and> sc s \<longrightarrow>
      NextMsg t s = ((None, Some ErrSlowConsumer), s\<lparr>sc := False\<rparr>)) \<and>
   (\<not> mch_nil s \<and> \<not> mcb s \<and> sub_conn s \<and> \<not> sc s \<and>
      (t \<or> (items (mch s) = [] \<and> \<not> chan_closed (mch s))) \<longrightarrow>
      NextMsg t s = ((None, Some ErrTimeout), s)) \<and>
   (\<not> mch_nil s \<and> \<not> mcb s \<and> sub_conn s \<and> \<not> sc s \<and> \<not> t \<and> items (mch s) = m # rest \<and>
      max_msgs s > 0 \<and> delivered s + 1 > max_msgs s \<longrightarrow>
      NextMsg t s = ((None, Some (ErrNew ''nats: Max messages delivered'')),
                     s\<lparr>mch := (mch s)\<lparr>items := rest\<rparr>, delivered := delivered s + 1\<rparr>))"
  by (rule NextMsg_cases)

theorem NextMsg_error_order_witness:
  "fst (NextMsg False sub_async_closed) = (None, Some ErrConnectionClosed) \<and>
   fst (NextMsg False (new_sub 1 ''foo'' True)) =
     (None, Some (ErrNew ''nats: Illegal call on an async Subscription'')) \<and>
   NextMsg False ((new_sub 1 ''foo'' False)\<lparr>sc := True\<rparr>) =
     ((None, Some ErrSlowConsumer), new_sub 1 ''foo'' False) \<and>
   fst (NextMsg False (new_sub 1 ''foo'' False)) = (None, Some ErrTimeout) \<and>
   fst (NextMsg False sub_late_max) = (None, Some (ErrNew ''nats: Max messages delivered''))"
proof -
  from NextMsg_error_order [of sub_async_closed False]
  have a: "fst (NextMsg False sub_async_closed) = (None, Some ErrConnectionClosed)"
    by (simp add: sub_async_closed_def close_mch_def new_sub_def)
  from NextMsg_error_order [of "new_sub 1 ''foo'' True" False]
  have b: "fst (NextMsg False (new_sub 1 ''foo'' True)) =
      (None, Some (ErrNew ''nats: Illegal call on an async Subscription''))"
    by (simp add: new_sub_def)
  from NextMsg_error_order [of "(new_sub 1 ''foo'' False)\<lparr>sc := True\<rparr>" False]
  have c: "NextMsg False ((new_sub 1 ''foo'' False)\<lparr>sc := True\<rparr>) =
      ((None, Some ErrSlowConsumer), new_sub 1 ''foo'' False)"
    by (simp add: new_sub_def)
  from NextMsg_error_order [of "new_sub 1 ''foo'' False" False]
  have d: "fst (NextMsg False (new_sub 1 ''foo'' False)) = (None, Some ErrTimeout)"
    by (simp add: new_sub_def)
  from NextMsg_error_order [of sub_late_max False msg0 "[]"]
  have e: "fst (NextMsg False sub_late_max) = (None, Some (ErrNew ''nats: Max messages delivered''))"
    by (simp add: sub_late_max_def new_sub_def)
  from a b c d e show ?thesis by blast
qed

text \<open>
  Claim C5 as written fails for an asynchronous subscription whose mailbox is nil:
  after \<open>Unsubscribe\<close> the subscription still has its callback, and \<open>NextMsg\<close> on it
  returns \<open>ErrConnectionClosed\<close>, not the illegal-call error.
\<close>

theorem NextMsg_async_closed_counterexample:
  "objs (snd (unsubscribe 1 0 (snd (subscribe ''foo'' [] True conn0)))) 1 = Some sub_async_closed \<and>
   mcb sub_async_closed \<and>
   fst (NextMsg False sub_async_closed) = (None, Some ErrConnectionClosed) \<and>
   fst (NextMsg True sub_async_closed) = (None, Some ErrConnectionClosed)"
  using sub_async_closed_reached
  by (simp add: NextMsg_def sub_async_closed_def close_mch_def new_sub_def)


text \<open>
  Claim C7 says that a reconnect loop that runs out of attempts closes the
  connection. The loop of \<open>doReconnect\<close> ends and the function returns without a call
  to \<open>Close\<close>: with the default ten attempts all failing, the connection stays
  \<open>RECONNECTING\<close>, the flush waiter stays in the queue unsignalled, the mailbox of the
  subscription stays open, and the closed callback, though registered, is not called.
\<close>

theorem doReconnect_exhausted_stays_reconnecting:
  "ClosedCB (Opts conn_waiting) \<and> MaxReconnect (Opts conn_waiting) = 10 \<and>
   (\<exists>nc'. doReconnect no_server (processReconnect conn_waiting) = LoopEnded nc' \<and>
      status nc' = RECONNECTING \<and> pongs nc' = [Some 5] \<and> signals nc' = [] \<and>
      subs nc' = [1] \<and> objs nc' 1 = Some (new_sub 1 ''foo'' False) \<and>
      \<not> mch_nil (new_sub 1 ''foo'' False) \<and>
      events nc' = [EvGo ''doReconnect'', EvDisconnectedCB])"
proof -
  note r = conn_waiting_reconnect
  have o: "\<not> isClosed (processReconnect conn_waiting)" using r by (simp add: isClosed_def)
  have m: "Opts (processReconnect conn_waiting) = opts0"
    by (simp add: processReconnect_def isClosed_def Let_def conn_waiting_def conn0_def opts0_def
      add_event_def kickFlusher_def close_socket_def bw_Flush_fields)
  have a: "ClosedCB (Opts conn_waiting)" "MaxReconnect (Opts conn_waiting) = 10"
    by (simp_all add: conn_waiting_def conn0_def opts0_def)
  have b: "\<not> mch_nil (new_sub 1 ''foo'' False)" by (simp add: new_sub_def)
  have n: "nat (sint (MaxReconnect opts0)) = 10" by (simp add: opts0_def)
  from doReconnect_loop_no_server [OF o, of 0 10]
  have l: "doReconnect no_server (processReconnect conn_waiting) =
      LoopEnded ((processReconnect conn_waiting)\<lparr>conn := None, err := None\<rparr>)"
    by (simp add: doReconnect_def m n)
  show ?thesis using r a b by (simp add: l)
qed


end
